theory Spec2Isabelle
  imports Main "HOL-Library.AList"
begin

section \<open>Strings as the source uses them\<close>

text \<open>
  JavaScript strings are modelled as \<^typ>\<open>string\<close>; the functions below are the
  \<^verbatim>\<open>String.prototype\<close> and \<^verbatim>\<open>Array.prototype\<close> methods the source calls.
\<close>

definition startsWith :: "string \<Rightarrow> string \<Rightarrow> bool" where
  \<comment> \<open>\<^verbatim>\<open>s.startsWith(p)\<close>\<close>
  "startsWith p s = (take (length p) s = p)"

definition endsWith :: "string \<Rightarrow> string \<Rightarrow> bool" where
  \<comment> \<open>\<^verbatim>\<open>s.endsWith(p)\<close>\<close>
  "endsWith p s = (length p \<le> length s \<and> drop (length s - length p) s = p)"

fun split_on :: "char \<Rightarrow> string \<Rightarrow> string list" where
  \<comment> \<open>\<^verbatim>\<open>s.split(c)\<close> for a one-character separator\<close>
  "split_on c [] = [[]]"
| "split_on c (x # xs) =
     (if x = c then [] # split_on c xs
      else (case split_on c xs of [] \<Rightarrow> [[x]] | w # ws \<Rightarrow> (x # w) # ws))"

fun join :: "string \<Rightarrow> string list \<Rightarrow> string" where
  \<comment> \<open>\<^verbatim>\<open>parts.join(sep)\<close>\<close>
  "join sep [] = []"
| "join sep [x] = x"
| "join sep (x # y # ys) = x @ sep @ join sep (y # ys)"

definition nonEmpty :: "string list \<Rightarrow> string list" where
  \<comment> \<open>\<^verbatim>\<open>xs.filter(Boolean)\<close> on an array of strings\<close>
  "nonEmpty xs = filter (\<lambda>s. s \<noteq> []) xs"

definition lower_char :: "char \<Rightarrow> char" where
  "lower_char c =
     (let n = (of_char c :: nat) in if 65 \<le> n \<and> n \<le> 90 then char_of (n + 32) else c)"

definition toLowerCase :: "string \<Rightarrow> string" where
  \<comment> \<open>\<^verbatim>\<open>s.toLowerCase()\<close> on ASCII letters\<close>
  "toLowerCase s = map lower_char s"

definition slice_inner :: "string \<Rightarrow> string" where
  \<comment> \<open>\<^verbatim>\<open>s.slice(1, -1)\<close>\<close>
  "slice_inner s = butlast (tl s)"

section \<open>The path module (POSIX), on the paths the callers pass\<close>

text \<open>
  \<^verbatim>\<open>node:path\<close> is a collaborator of the repository. Its functions are modelled as Node
  documents them for POSIX, on absolute paths: the callers resolve every root against the
  working directory and ask the file discovery for absolute paths.
\<close>

fun normalizeString :: "bool \<Rightarrow> string list \<Rightarrow> string list \<Rightarrow> string list" where
  \<comment> \<open>drops empty and \<^verbatim>\<open>.\<close> segments and resolves \<^verbatim>\<open>..\<close>; the accumulator is in order\<close>
  "normalizeString allowAboveRoot acc [] = acc"
| "normalizeString allowAboveRoot acc (s # ss) =
     (if s = [] \<or> s = ''.'' then normalizeString allowAboveRoot acc ss
      else if s = ''..'' then
        (if acc \<noteq> [] \<and> last acc \<noteq> ''..'' then normalizeString allowAboveRoot (butlast acc) ss
         else if allowAboveRoot then normalizeString allowAboveRoot (acc @ [''..'']) ss
         else normalizeString allowAboveRoot acc ss)
      else normalizeString allowAboveRoot (acc @ [s]) ss)"

definition path_segments :: "string \<Rightarrow> string list" where
  "path_segments p = normalizeString False [] (split_on CHR ''/'' p)"

definition path_resolve :: "string \<Rightarrow> string" where
  \<comment> \<open>\<^verbatim>\<open>path.resolve(p)\<close> for an absolute \<open>p\<close>\<close>
  "path_resolve p = CHR ''/'' # join ''/'' (path_segments p)"

definition path_normalize :: "string \<Rightarrow> string" where
  "path_normalize p =
     (if p = [] then ''.''
      else
        let isAbsolute = (hd p = CHR ''/'');
            trailingSeparator = (last p = CHR ''/'');
            body = join ''/'' (normalizeString (\<not> isAbsolute) [] (split_on CHR ''/'' p))
        in if body = [] then (if isAbsolute then ''/'' else if trailingSeparator then ''./'' else ''.'')
           else
             let body' = (if trailingSeparator then body @ ''/'' else body)
             in if isAbsolute then CHR ''/'' # body' else body')"

definition path_join :: "string \<Rightarrow> string \<Rightarrow> string" where
  \<comment> \<open>\<^verbatim>\<open>path.join(a, b)\<close>\<close>
  "path_join a b =
     (let joined = (if a = [] then b else if b = [] then a else a @ ''/'' @ b)
      in if joined = [] then ''.'' else path_normalize joined)"

fun strip_common :: "string list \<Rightarrow> string list \<Rightarrow> string list \<times> string list" where
  "strip_common (x # xs) (y # ys) = (if x = y then strip_common xs ys else (x # xs, y # ys))"
| "strip_common xs ys = (xs, ys)"

definition path_relative :: "string \<Rightarrow> string \<Rightarrow> string" where
  \<comment> \<open>\<^verbatim>\<open>path.relative(from, to)\<close>: one \<^verbatim>\<open>..\<close> for each segment of \<open>from\<close> below the
      common directory, then the rest of \<open>to\<close>\<close>
  "path_relative from to =
     (case strip_common (path_segments from) (path_segments to) of
        (f, t) \<Rightarrow> join ''/'' (replicate (length f) ''..'' @ t))"

definition path_dirname :: "string \<Rightarrow> string" where
  \<comment> \<open>\<^verbatim>\<open>path.dirname(p)\<close>: the scan from the right for the last separator that follows a
      non-separator, never looking at index 0\<close>
  "path_dirname p =
     (if p = [] then ''.''
      else
        let hasRoot = (hd p = CHR ''/'');
            r = dropWhile (\<lambda>c. c \<noteq> CHR ''/'') (dropWhile (\<lambda>c. c = CHR ''/'') (rev (tl p)))
        in if r = [] then (if hasRoot then ''/'' else ''.'')
           else if hasRoot \<and> length r = 1 then ''//''
           else take (length r) p)"

definition path_base :: "string \<Rightarrow> string" where
  \<comment> \<open>\<^verbatim>\<open>path.parse(p).base\<close> of a relative path with no trailing separator\<close>
  "path_base p = last (split_on CHR ''/'' p)"

definition path_dir :: "string \<Rightarrow> string" where
  \<comment> \<open>\<^verbatim>\<open>path.parse(p).dir\<close> of a relative path with no trailing separator\<close>
  "path_dir p = join ''/'' (butlast (split_on CHR ''/'' p))"

definition strip_ext :: "string \<Rightarrow> string" where
  \<comment> \<open>the base name without its extension: the extension starts at the last dot, unless
      that dot is the first character or the name is \<^verbatim>\<open>..\<close>\<close>
  "strip_ext b =
     (if CHR ''.'' \<notin> set b then b
      else
        let i = length b - Suc (length (takeWhile (\<lambda>c. c \<noteq> CHR ''.'') (rev b)))
        in if i = 0 \<or> b = ''..'' then b else take i b)"

definition path_name :: "string \<Rightarrow> string" where
  \<comment> \<open>\<^verbatim>\<open>path.parse(p).name\<close>\<close>
  "path_name p = strip_ext (path_base p)"

section \<open>autorouter.ts: the folder router's path\<close>

definition METHOD_NAMES :: "string list" where
  "METHOD_NAMES = [''get'', ''post'', ''put'', ''patch'', ''delete'', ''options'', ''head'']"

definition isMethodFile :: "string \<Rightarrow> string option" where
  "isMethodFile baseName =
     (let lower = toLowerCase baseName
      in if lower \<in> set METHOD_NAMES then Some lower else None)"

definition convertSegment :: "string \<Rightarrow> string" where
  "convertSegment s =
     (if startsWith ''['' s \<and> endsWith '']'' s then
        let name = slice_inner s;
            name1 = (if startsWith ''...'' name then drop 3 name else name);
            name2 = (if startsWith ''['' name1 \<and> endsWith '']'' name1 then slice_inner name1 else name1)
        in CHR '':'' # name2
      else s)"

definition computeAutorouterPath :: "string \<Rightarrow> string \<Rightarrow> string option" where
  "computeAutorouterPath rootDirAbs fileAbs =
     (let rel = path_relative rootDirAbs fileAbs
      in if startsWith ''..'' rel then None
         else
           let segs = nonEmpty (split_on CHR ''/'' (path_dir rel));
               base = path_name rel;
               methodInName = isMethodFile base;
               segs' = (if methodInName = None \<and> base \<noteq> ''index'' then segs @ [base] else segs);
               pathSegs = map convertSegment segs';
               joined = CHR ''/'' # join ''/'' (nonEmpty pathSegs)
           in Some (if joined = [] then ''/'' else joined))"

text \<open>
  A path segment as a file system gives it: not empty, no separator inside, and neither of
  the two names of the directory itself and its parent.
\<close>

definition validSegment :: "string \<Rightarrow> bool" where
  "validSegment s = (s \<noteq> [] \<and> CHR ''/'' \<notin> set s \<and> s \<noteq> ''.'' \<and> s \<noteq> ''..'')"

section \<open>autoroutes.ts: middleware scopes\<close>

definition scopePrefix :: "string \<Rightarrow> string \<Rightarrow> string" where
  \<comment> \<open>the prefix pushed for a directory \<open>cur\<close> that holds a middleware file\<close>
  "scopePrefix rootDirAbs cur =
     (let rel = path_relative rootDirAbs cur
      in if rel \<noteq> [] then CHR ''/'' # join ''/'' (nonEmpty (split_on CHR ''/'' rel)) else ''/'')"

definition walk_measure :: "string \<Rightarrow> nat" where
  "walk_measure cur = (if cur = ''.'' then 0 else Suc (length cur))"

lemma path_dirname_Cons: "path_dirname (c # cs) =
     (let r = dropWhile (\<lambda>c. c \<noteq> CHR ''/'') (dropWhile (\<lambda>c. c = CHR ''/'') (rev cs)) in 
     (if r = [] then (if c = CHR ''/'' then ''/'' else ''.'')
      else if c = CHR ''/'' \<and> length r = 1 then ''//''
      else take (length r) (c # cs)))"
  unfolding path_dirname_def Let_def
  by (simp only: list.sel list.simps if_False)

lemma walk_measure_less:
  "length q < length p \<Longrightarrow> 2 \<le> length p \<Longrightarrow> walk_measure q < walk_measure p"
  by (auto simp: walk_measure_def)

lemma path_dirname_measure:
  "path_dirname cur \<noteq> cur \<Longrightarrow> walk_measure (path_dirname cur) < walk_measure cur"
proof (cases cur)
  case Nil
  then show ?thesis by (simp add: path_dirname_def walk_measure_def)
next
  case (Cons c cs)
  define a where "a = dropWhile (\<lambda>c. c = CHR ''/'') (rev cs)"
  define r where "r = dropWhile (\<lambda>c. c \<noteq> CHR ''/'') a"
  have la: "length a \<le> length cs"
    unfolding a_def using length_dropWhile_le[of "\<lambda>c. c = CHR ''/''" "rev cs"] by simp
  have lr: "length r \<le> length a"
    unfolding r_def by (rule length_dropWhile_le)
  have dn: "path_dirname cur =
     (if r = [] then (if c = CHR ''/'' then ''/'' else ''.'')
      else if c = CHR ''/'' \<and> length r = 1 then ''//''
      else take (length r) cur)"
    unfolding Cons path_dirname_Cons r_def a_def Let_def ..
  assume neq: "path_dirname cur \<noteq> cur"
  show ?thesis
  proof (cases "r = []")
    case True
    show ?thesis
    proof (cases "c = CHR ''/''")
      case T2: True
      have d: "path_dirname cur = ''/''" using dn True T2 by simp
      then have "cs \<noteq> []" using neq Cons T2 by auto
      then have "length ''/'' < length cur" "2 \<le> length cur" using Cons by (cases cs; simp)+
      then show ?thesis unfolding d by (rule walk_measure_less)
    next
      case F2: False
      have d: "path_dirname cur = ''.''" using dn True F2 by simp
      then show ?thesis using neq unfolding d by (simp add: walk_measure_def)
    qed
  next
    case False
    then have an: "a \<noteq> []" unfolding r_def by auto
    have "hd a \<noteq> CHR ''/''"
      using an hd_dropWhile[of "\<lambda>c. c = CHR ''/''" "rev cs"] unfolding a_def by blast
    then have "takeWhile (\<lambda>c. c \<noteq> CHR ''/'') a \<noteq> []"
      using an by (cases a) auto
    then have "0 < length (takeWhile (\<lambda>c. c \<noteq> CHR ''/'') a)" by simp
    moreover have "length a = length (takeWhile (\<lambda>c. c \<noteq> CHR ''/'') a) + length r"
      unfolding r_def by (metis length_append takeWhile_dropWhile_id)
    ultimately have lt: "length r < length a" by linarith
    show ?thesis
    proof (cases "c = CHR ''/'' \<and> length r = 1")
      case True
      have d: "path_dirname cur = ''//''" using dn False True by simp
      have "2 \<le> length cs" using lt la True by linarith
      then have "length ''//'' < length cur" "2 \<le> length cur" using Cons by simp_all
      then show ?thesis unfolding d by (rule walk_measure_less)
    next
      case F2: False
      have d: "path_dirname cur = take (length r) cur"
        using False F2 dn by presburger
      have "cs \<noteq> []" using an la by auto
      then have "length (take (length r) cur) < length cur" "2 \<le> length cur"
        using lr la Cons by (cases cs; simp)+
      then show ?thesis unfolding d by (rule walk_measure_less)
    qed
  qed
qed
function findMiddlewareWalk ::
  "(string \<Rightarrow> bool) \<Rightarrow> string \<Rightarrow> string \<Rightarrow> string \<Rightarrow> string list \<Rightarrow> string list" where
  "findMiddlewareWalk existsSync rootDirAbs stop cur scopes =
     (let scopes' = (if existsSync (path_join cur ''middleware.ts'')
                     then scopes @ [scopePrefix rootDirAbs cur] else scopes)
      in if cur = stop then scopes'
         else
           let parent = path_dirname cur
           in if parent = cur then scopes'
              else if startsWith ''..'' (path_relative stop parent) then scopes'
              else findMiddlewareWalk existsSync rootDirAbs stop parent scopes')"
  by pat_completeness auto
termination
  by (relation "measure (\<lambda>(e, r, s, cur, sc). walk_measure cur)")
     (auto simp: path_dirname_measure)

declare findMiddlewareWalk.simps [simp del]

definition findMiddlewareScopes :: "(string \<Rightarrow> bool) \<Rightarrow> string \<Rightarrow> string \<Rightarrow> string list" where
  \<comment> \<open>\<^verbatim>\<open>fs.existsSync\<close> is the parameter \<open>existsSync\<close>; \<^verbatim>\<open>Array.prototype.sort\<close> is stable\<close>
  "findMiddlewareScopes existsSync filePath rootDirAbs =
     sort_key (\<lambda>a. length (split_on CHR ''/'' a))
       (findMiddlewareWalk existsSync rootDirAbs (path_resolve rootDirAbs) (path_dirname filePath) [])"

section \<open>JavaScript objects as dictionaries\<close>

text \<open>
  The program builds the \<^verbatim>\<open>properties\<close> of a schema by assignments \<^verbatim>\<open>obj[k] = v\<close> to an object
  that starts as \<^verbatim>\<open>{}\<close>, and reads them back by enumeration (\<^verbatim>\<open>JSON.stringify\<close>,
  \<^verbatim>\<open>Object.entries\<close>, \<^verbatim>\<open>Object.keys\<close>). Such an object is the list of its own properties in the
  order JavaScript enumerates them: first the keys that are array indices (the decimal
  numerals of the whole numbers below \<open>2\<^sup>3\<^sup>2 - 1\<close>, without leading zeros) by ascending value,
  then every other key in the order of its first assignment. An assignment to the key
  \<^verbatim>\<open>__proto__\<close> runs the setter inherited from \<^verbatim>\<open>Object.prototype\<close> and creates no own property.
\<close>

definition isDecimalDigit :: "char \<Rightarrow> bool" where
  "isDecimalDigit ch = (48 \<le> (of_char ch :: int) \<and> (of_char ch :: int) \<le> 57)"

definition decimalValue :: "string \<Rightarrow> int" where
  "decimalValue s = foldl (\<lambda>acc ch. 10 * acc + (of_char ch - 48)) 0 s"

definition arrayIndex :: "string \<Rightarrow> int option" where
  \<comment> \<open>the value of a key that is an array index\<close>
  "arrayIndex k =
     (if k \<noteq> [] \<and> list_all isDecimalDigit k \<and> (k = ''0'' \<or> hd k \<noteq> CHR ''0'')
         \<and> decimalValue k < 4294967295
      then Some (decimalValue k) else None)"

fun insertIndexed :: "int \<Rightarrow> string \<Rightarrow> 'v \<Rightarrow> (string \<times> 'v) list \<Rightarrow> (string \<times> 'v) list" where
  \<comment> \<open>a new array index takes its place among the array indices\<close>
  "insertIndexed i k v [] = [(k, v)]"
| "insertIndexed i k v (p # ps) =
     (case arrayIndex (fst p) of
        Some j \<Rightarrow> if j < i then p # insertIndexed i k v ps else (k, v) # p # ps
      | None \<Rightarrow> (k, v) # p # ps)"

definition setProperty :: "string \<Rightarrow> 'v \<Rightarrow> (string \<times> 'v) list \<Rightarrow> (string \<times> 'v) list" where
  \<comment> \<open>\<^verbatim>\<open>obj[k] = v\<close>, for a value \<open>v\<close> that is an object\<close>
  "setProperty k v obj =
     (if k = ''__proto__'' then obj
      else if k \<in> set (map fst obj) then AList.update k v obj
      else
        (case arrayIndex k of
           Some i \<Rightarrow> insertIndexed i k v obj
         | None \<Rightarrow> obj @ [(k, v)]))"

section \<open>Schemas\<close>

text \<open>
  The JSON Schema objects the program builds. Each constructor is one shape of object
  literal of the source; the last field is the \<^verbatim>\<open>nullable\<close> key (set to \<^verbatim>\<open>true\<close>, or
  absent). Keys are kept in the order the source writes them; the properties of an object
  schema are kept in the order JavaScript enumerates them.
\<close>

datatype schema =
    SPrim string "string option" bool
      \<comment> \<open>\<^verbatim>\<open>{ type: t, format?: f }\<close> for a scalar type \<open>t\<close>\<close>
  | SArray schema bool
      \<comment> \<open>\<^verbatim>\<open>{ type: 'array', items }\<close>\<close>
  | SObject "(string \<times> schema) list" "string list option" bool
      \<comment> \<open>\<^verbatim>\<open>{ type: 'object', properties, required? }\<close>\<close>
  | SRecord schema bool
      \<comment> \<open>\<^verbatim>\<open>{ type: 'object', additionalProperties }\<close>\<close>
  | SDescription string bool
      \<comment> \<open>\<^verbatim>\<open>{ description }\<close>\<close>
  | SAnyOf "schema list" bool
      \<comment> \<open>\<^verbatim>\<open>{ anyOf, nullable }\<close>\<close>
  | SEmpty bool
      \<comment> \<open>\<^verbatim>\<open>{}\<close>\<close>

fun setNullable :: "schema \<Rightarrow> schema" where
  \<comment> \<open>\<^verbatim>\<open>s.nullable = true\<close>\<close>
  "setNullable (SPrim t f _) = SPrim t f True"
| "setNullable (SArray i _) = SArray i True"
| "setNullable (SObject ps r _) = SObject ps r True"
| "setNullable (SRecord a _) = SRecord a True"
| "setNullable (SDescription d _) = SDescription d True"
| "setNullable (SAnyOf vs _) = SAnyOf vs True"
| "setNullable (SEmpty _) = SEmpty True"

subsection \<open>Serialization\<close>

definition hexDigit :: "nat \<Rightarrow> char" where
  "hexDigit d = (if d < 10 then char_of (48 + d) else char_of (87 + d))"

definition json_escape :: "char \<Rightarrow> string" where
  \<comment> \<open>the quote, the backslash and the control characters are written as escapes\<close>
  "json_escape c =
     (if c = CHR 0x22 then [CHR 0x5C, CHR 0x22]
      else if c = CHR 0x5C then [CHR 0x5C, CHR 0x5C]
      else if c = CHR 0x08 then [CHR 0x5C, CHR ''b'']
      else if c = CHR 0x0C then [CHR 0x5C, CHR ''f'']
      else if c = CHR 0x0A then [CHR 0x5C, CHR ''n'']
      else if c = CHR 0x0D then [CHR 0x5C, CHR ''r'']
      else if c = CHR 0x09 then [CHR 0x5C, CHR ''t'']
      else if (of_char c :: nat) < 32
      then [CHR 0x5C, CHR ''u'', CHR ''0'', CHR ''0'', hexDigit (of_char c div 16), hexDigit (of_char c mod 16)]
      else [c])"

definition json_string :: "string \<Rightarrow> string" where
  "json_string s = CHR 0x22 # concat (map json_escape s) @ [CHR 0x22]"

definition json_member :: "string \<Rightarrow> string \<Rightarrow> string" where
  "json_member k v = json_string k @ '':'' @ v"

definition json_object :: "string list \<Rightarrow> string" where
  "json_object members = ''{'' @ join '','' members @ ''}''"

definition json_array :: "string list \<Rightarrow> string" where
  "json_array elements = ''['' @ join '','' elements @ '']''"

definition json_nullable :: "bool \<Rightarrow> string list" where
  "json_nullable n = (if n then [json_member ''nullable'' ''true''] else [])"

fun JSON_stringify :: "schema \<Rightarrow> string" where
  \<comment> \<open>\<^verbatim>\<open>JSON.stringify(s)\<close>: keys in insertion order, a key whose value is \<^verbatim>\<open>undefined\<close> left out\<close>
  "JSON_stringify (SPrim t f n) =
     json_object ([json_member ''type'' (json_string t)]
       @ (case f of None \<Rightarrow> [] | Some x \<Rightarrow> [json_member ''format'' (json_string x)])
       @ json_nullable n)"
| "JSON_stringify (SArray i n) =
     json_object ([json_member ''type'' (json_string ''array''), json_member ''items'' (JSON_stringify i)]
       @ json_nullable n)"
| "JSON_stringify (SObject ps r n) =
     json_object ([json_member ''type'' (json_string ''object''),
         json_member ''properties''
           (json_object (map (\<lambda>p. json_member (fst p) (JSON_stringify (snd p))) ps))]
       @ (case r of None \<Rightarrow> [] | Some names \<Rightarrow> [json_member ''required'' (json_array (map json_string names))])
       @ json_nullable n)"
| "JSON_stringify (SRecord a n) =
     json_object ([json_member ''type'' (json_string ''object''),
         json_member ''additionalProperties'' (JSON_stringify a)]
       @ json_nullable n)"
| "JSON_stringify (SDescription d n) =
     json_object ([json_member ''description'' (json_string d)] @ json_nullable n)"
| "JSON_stringify (SAnyOf vs n) =
     json_object ([json_member ''anyOf'' (json_array (map JSON_stringify vs))] @ json_nullable n)"
| "JSON_stringify (SEmpty n) = json_object (json_nullable n)"

fun uniqueByKey :: "schema list \<Rightarrow> string list \<Rightarrow> schema list \<Rightarrow> schema list" where
  \<comment> \<open>the loop over \<^verbatim>\<open>anyOfRaw\<close>: \<open>seenKeys\<close> and \<open>uniq\<close> are its two accumulators\<close>
  "uniqueByKey [] seenKeys uniq = uniq"
| "uniqueByKey (s # rest) seenKeys uniq =
     (let key = JSON_stringify s
      in if key \<notin> set seenKeys then uniqueByKey rest (key # seenKeys) (uniq @ [s])
         else uniqueByKey rest seenKeys uniq)"

section \<open>The type oracle\<close>

text \<open>
  The TypeScript checker is a collaborator. A type is an object with an identity, and type
  graphs may be cyclic, so a type is a number and the checker's answers about it are a
  table: one field for each question the source asks.
\<close>

record tsType =
  unionTypes :: "nat list option"
    \<comment> \<open>\<^verbatim>\<open>type.isUnion()\<close> and then \<^verbatim>\<open>type.types\<close>\<close>
  flagNullish :: bool
    \<comment> \<open>\<^verbatim>\<open>flags & (Undefined | Null)\<close> is not zero\<close>
  flagString :: bool
    \<comment> \<open>\<^verbatim>\<open>isStringType\<close>\<close>
  flagNumber :: bool
    \<comment> \<open>\<^verbatim>\<open>isNumberType\<close>\<close>
  flagBoolean :: bool
    \<comment> \<open>\<^verbatim>\<open>isBooleanType\<close>\<close>
  flagObject :: bool
    \<comment> \<open>\<^verbatim>\<open>flags & Object\<close> is not zero\<close>
  flagNumberLiteral :: bool
    \<comment> \<open>\<^verbatim>\<open>flags & NumberLiteral\<close> is not zero\<close>
  numberIndexType :: "nat option"
    \<comment> \<open>\<^verbatim>\<open>checker.getIndexTypeOfType(type, ts.IndexKind.Number)\<close>\<close>
  propertiesOfType :: "(string \<times> bool \<times> nat) list"
    \<comment> \<open>\<^verbatim>\<open>checker.getPropertiesOfType(type)\<close>: the name, whether the declaration carries a
        question token, and \<^verbatim>\<open>checker.getTypeOfSymbol\<close>\<close>
  typeString :: string
    \<comment> \<open>\<^verbatim>\<open>checker.typeToString(type)\<close>\<close>
  symbolName :: "string option"
    \<comment> \<open>\<^verbatim>\<open>getTypeName\<close>\<close>
  literalNumber :: "int option"
    \<comment> \<open>\<^verbatim>\<open>type.value\<close> when it is a number\<close>

type_synonym typeTable = "nat \<Rightarrow> tsType"

section \<open>analyzer.ts: from a type to a schema\<close>

text \<open>
  \<^verbatim>\<open>typeToSchema\<close> recurses along the type graph and shares one mutable set \<^verbatim>\<open>seen\<close>
  between all its calls, so the set is passed in and returned. On a cyclic graph the
  recursion may not end (the JavaScript call stack overflows): the first argument bounds
  the depth of the calls, and \<open>None\<close> says that the bound was reached.
\<close>

function (sequential) typeToSchema :: "nat \<Rightarrow> typeTable \<Rightarrow> nat \<Rightarrow> nat set \<Rightarrow> (schema \<times> nat set) option"
  and typeToSchemaEach :: "nat \<Rightarrow> typeTable \<Rightarrow> nat list \<Rightarrow> nat set \<Rightarrow> (schema list \<times> nat set) option"
  and typeToSchemaProps ::
    "nat \<Rightarrow> typeTable \<Rightarrow> (string \<times> bool \<times> nat) list \<Rightarrow> (string \<times> schema) list \<Rightarrow> string list \<Rightarrow> nat set
      \<Rightarrow> ((string \<times> schema) list \<times> string list \<times> nat set) option"
where
  "typeToSchema 0 checker type seen = None"
| "typeToSchema (Suc depth) checker type seen =
     (case unionTypes (checker type) of
        Some parts \<Rightarrow>
          (let nullish = (\<exists>t\<in>set parts. flagNullish (checker t));
               nonNullish = filter (\<lambda>t. \<not> flagNullish (checker t)) parts
           in if length nonNullish = 1 then
                (case typeToSchema depth checker (hd nonNullish) seen of
                   None \<Rightarrow> None
                 | Some (s, seen') \<Rightarrow> Some (if nullish then setNullable s else s, seen'))
              else
                (case typeToSchemaEach depth checker nonNullish seen of
                   None \<Rightarrow> None
                 | Some (anyOfRaw, seen') \<Rightarrow> Some (SAnyOf (uniqueByKey anyOfRaw [] []) nullish, seen')))
      | None \<Rightarrow>
          if flagString (checker type) then Some (SPrim ''string'' None False, seen)
          else if flagNumber (checker type) then Some (SPrim ''number'' None False, seen)
          else if flagBoolean (checker type) then Some (SPrim ''boolean'' None False, seen)
          else
            (case numberIndexType (checker type) of
               Some arrayType \<Rightarrow>
                 (case typeToSchema depth checker arrayType seen of
                    None \<Rightarrow> None
                  | Some (items, seen') \<Rightarrow> Some (SArray items False, seen'))
             | None \<Rightarrow>
                 if flagObject (checker type) then
                   (if type \<in> seen then Some (SDescription ''...recursive...'' False, seen)
                    else
                      (case typeToSchemaProps depth checker (propertiesOfType (checker type)) [] []
                              (insert type seen) of
                         None \<Rightarrow> None
                       | Some (properties, required, seen') \<Rightarrow>
                           Some (SObject properties (if required \<noteq> [] then Some required else None) False,
                                 seen')))
                 else Some (SDescription (''Unparsed type: '' @ typeString (checker type)) False, seen)))"
| "typeToSchemaEach depth checker [] seen = Some ([], seen)"
| "typeToSchemaEach depth checker (t # ts) seen =
     (case typeToSchema depth checker t seen of
        None \<Rightarrow> None
      | Some (s, seen') \<Rightarrow>
          (case typeToSchemaEach depth checker ts seen' of
             None \<Rightarrow> None
           | Some (ss, seen'') \<Rightarrow> Some (s # ss, seen'')))"
| "typeToSchemaProps depth checker [] properties required seen = Some (properties, required, seen)"
| "typeToSchemaProps depth checker ((name, isOptional, pType) # props) properties required seen =
     (case typeToSchema depth checker pType seen of
        None \<Rightarrow> None
      | Some (s, seen') \<Rightarrow>
          typeToSchemaProps depth checker props (setProperty name s properties)
            (if \<not> isOptional then required @ [name] else required) seen')"
  by pat_completeness auto
termination
  by (relation "inv_image (less_than <*lex*> less_than)
        (\<lambda>x. case x of
           Inl (d, c, t, s) \<Rightarrow> (d, 0)
         | Inr (Inl (d, c, ts, s)) \<Rightarrow> (d, Suc (length ts))
         | Inr (Inr (d, c, ps, pr, rq, s)) \<Rightarrow> (d, Suc (length ps)))")
     auto

section \<open>Type tables of small programs\<close>

text \<open>
  The checker's answers for a few TypeScript declarations, used to run the synthesizer.
\<close>

definition plainType :: tsType where
  "plainType = \<lparr> unionTypes = None, flagNullish = False, flagString = False, flagNumber = False,
     flagBoolean = False, flagObject = False, flagNumberLiteral = False, numberIndexType = None,
     propertiesOfType = [], typeString = [], symbolName = None, literalNumber = None \<rparr>"

definition jsonTypes :: typeTable where
  \<comment> \<open>\<^verbatim>\<open>type Json = string | Json[]\<close>: type 0 is \<^verbatim>\<open>Json\<close>, type 1 \<^verbatim>\<open>string\<close>, type 2 \<^verbatim>\<open>Json[]\<close>\<close>
  "jsonTypes t =
     (if t = 0 then plainType \<lparr> unionTypes := Some [1, 2], typeString := ''Json'' \<rparr>
      else if t = 1 then plainType \<lparr> flagString := True, typeString := ''string'' \<rparr>
      else plainType \<lparr> flagObject := True, numberIndexType := Some 0, typeString := ''Json[]'',
             symbolName := Some ''Array'' \<rparr>)"

definition optStringTypes :: typeTable where
  \<comment> \<open>\<^verbatim>\<open>string | undefined\<close>: type 0 is the union, type 1 \<^verbatim>\<open>undefined\<close>, type 2 \<^verbatim>\<open>string\<close>\<close>
  "optStringTypes t =
     (if t = 0 then plainType \<lparr> unionTypes := Some [1, 2], typeString := ''string | undefined'' \<rparr>
      else if t = 1 then plainType \<lparr> flagNullish := True, typeString := ''undefined'' \<rparr>
      else plainType \<lparr> flagString := True, typeString := ''string'' \<rparr>)"

definition literalTypes :: typeTable where
  \<comment> \<open>\<^verbatim>\<open>'a' | 'b' | 7 | null\<close>: type 0 is the union, type 1 \<^verbatim>\<open>null\<close>, types 2 and 3 the string
      literals, type 4 the number literal\<close>
  "literalTypes t =
     (if t = 0 then plainType \<lparr> unionTypes := Some [1, 2, 3, 4] \<rparr>
      else if t = 1 then plainType \<lparr> flagNullish := True, typeString := ''null'' \<rparr>
      else if t = 2 then plainType \<lparr> flagString := True, typeString := [CHR 0x22, CHR ''a'', CHR 0x22] \<rparr>
      else if t = 3 then plainType \<lparr> flagString := True, typeString := [CHR 0x22, CHR ''b'', CHR 0x22] \<rparr>
      else plainType \<lparr> flagNumber := True, flagNumberLiteral := True, typeString := ''7'',
             literalNumber := Some 7 \<rparr>)"

definition optArrayTypes :: typeTable where
  \<comment> \<open>\<^verbatim>\<open>string[] | undefined\<close>: type 0 is the union, type 1 \<^verbatim>\<open>undefined\<close>, type 2 \<^verbatim>\<open>string[]\<close>,
      type 3 \<^verbatim>\<open>string\<close>\<close>
  "optArrayTypes t =
     (if t = 0 then plainType \<lparr> unionTypes := Some [1, 2], typeString := ''string[] | undefined'' \<rparr>
      else if t = 1 then plainType \<lparr> flagNullish := True, typeString := ''undefined'' \<rparr>
      else if t = 2 then plainType \<lparr> flagObject := True, numberIndexType := Some 3,
             typeString := ''string[]'', symbolName := Some ''Array'' \<rparr>
      else plainType \<lparr> flagString := True, typeString := ''string'' \<rparr>)"

definition optBooleanTypes :: typeTable where
  \<comment> \<open>\<^verbatim>\<open>boolean | undefined\<close>: the checker holds \<^verbatim>\<open>boolean\<close> as the union of \<^verbatim>\<open>false\<close> and
      \<^verbatim>\<open>true\<close>, so the members of the union (type 0) are \<^verbatim>\<open>undefined\<close> (type 1), \<^verbatim>\<open>false\<close>
      (type 2) and \<^verbatim>\<open>true\<close> (type 3)\<close>
  "optBooleanTypes t =
     (if t = 0 then plainType \<lparr> unionTypes := Some [1, 2, 3], flagBoolean := True,
             typeString := ''boolean | undefined'' \<rparr>
      else if t = 1 then plainType \<lparr> flagNullish := True, typeString := ''undefined'' \<rparr>
      else if t = 2 then plainType \<lparr> flagBoolean := True, typeString := ''false'' \<rparr>
      else plainType \<lparr> flagBoolean := True, typeString := ''true'' \<rparr>)"

definition optObjectTypes :: typeTable where
  \<comment> \<open>\<^verbatim>\<open>{ 1?: string; 0?: string } | { 0?: string; 1?: string } | null\<close>: type 0 is the union,
      type 1 \<^verbatim>\<open>null\<close>, types 2 and 3 the object types, type 4 \<^verbatim>\<open>string | undefined\<close> with its
      members \<^verbatim>\<open>undefined\<close> (type 5) and \<^verbatim>\<open>string\<close> (type 6)\<close>
  "optObjectTypes t =
     (if t = 0 then plainType \<lparr> unionTypes := Some [1, 2, 3] \<rparr>
      else if t = 1 then plainType \<lparr> flagNullish := True, typeString := ''null'' \<rparr>
      else if t = 2 then plainType \<lparr> flagObject := True,
             propertiesOfType := [(''1'', True, 4), (''0'', True, 4)],
             typeString := ''{ 1?: string; 0?: string; }'' \<rparr>
      else if t = 3 then plainType \<lparr> flagObject := True,
             propertiesOfType := [(''0'', True, 4), (''1'', True, 4)],
             typeString := ''{ 0?: string; 1?: string; }'' \<rparr>
      else if t = 4 then plainType \<lparr> unionTypes := Some [5, 6], typeString := ''string | undefined'' \<rparr>
      else if t = 5 then plainType \<lparr> flagNullish := True, typeString := ''undefined'' \<rparr>
      else plainType \<lparr> flagString := True, typeString := ''string'' \<rparr>)"

definition nodeTypes :: typeTable where
  \<comment> \<open>type 0 is \<^verbatim>\<open>interface Node { next: Node }\<close>; type 1 is \<^verbatim>\<open>{ a: U; b: U }\<close> with type 2
      \<^verbatim>\<open>U = { x: string }\<close>; every other type is \<^verbatim>\<open>string\<close>\<close>
  "nodeTypes t =
     (if t = 0 then plainType \<lparr> flagObject := True, propertiesOfType := [(''next'', False, 0)] \<rparr>
      else if t = 1 then plainType \<lparr> flagObject := True,
             propertiesOfType := [(''a'', False, 2), (''b'', False, 2)] \<rparr>
      else if t = 2 then plainType \<lparr> flagObject := True, propertiesOfType := [(''x'', False, 3)] \<rparr>
      else plainType \<lparr> flagString := True, typeString := ''string'' \<rparr>)"

section \<open>schema.ts: from a type's text to a schema\<close>

text \<open>
  \<^verbatim>\<open>typeTextToSchema\<close> works on the text of a type with regular expressions. Each
  expression is modelled by a function that returns what its capture group holds when the
  expression matches: \<^verbatim>\<open>.\<close> matches every character but a line terminator, \<^verbatim>\<open>\s\<close> the
  white space characters, \<^verbatim>\<open>\w\<close> letters, digits and the underscore. Strings are ASCII.
\<close>

definition isWhiteSpace :: "char \<Rightarrow> bool" where
  "isWhiteSpace c = (c \<in> set [CHR '' '', CHR 0x09, CHR 0x0A, CHR 0x0B, CHR 0x0C, CHR 0x0D])"

definition isLineTerminator :: "char \<Rightarrow> bool" where
  "isLineTerminator c = (c = CHR 0x0A \<or> c = CHR 0x0D)"

definition isWordChar :: "char \<Rightarrow> bool" where
  "isWordChar c =
     (let n = (of_char c :: nat)
      in (48 \<le> n \<and> n \<le> 57) \<or> (65 \<le> n \<and> n \<le> 90) \<or> (97 \<le> n \<and> n \<le> 122) \<or> n = 95)"

definition trim :: "string \<Rightarrow> string" where
  \<comment> \<open>\<^verbatim>\<open>s.trim()\<close>\<close>
  "trim s = rev (dropWhile isWhiteSpace (rev (dropWhile isWhiteSpace s)))"

text \<open>
  The tail \<^verbatim>\<open>\s*(.+)$\<close> of two of the expressions: the group is what follows the white
  space; when only white space is left, the expression gives its last character back to
  the group.
\<close>

definition matchRest :: "string \<Rightarrow> string option" where
  "matchRest rest =
     (let w = takeWhile isWhiteSpace rest; b = dropWhile isWhiteSpace rest
      in if b \<noteq> [] then (if \<exists>c\<in>set b. isLineTerminator c then None else Some b)
         else if w \<noteq> [] \<and> \<not> isLineTerminator (last w) then Some [last w]
         else None)"

definition matchArraySuffix :: "string \<Rightarrow> string option" where
  \<comment> \<open>\<^verbatim>\<open>/^(.*)\[]$/\<close>\<close>
  "matchArraySuffix t =
     (if endsWith ''[]'' t \<and> \<not> (\<exists>c\<in>set (take (length t - 2) t). isLineTerminator c)
      then Some (take (length t - 2) t) else None)"

definition matchArrayGeneric :: "string \<Rightarrow> string option" where
  \<comment> \<open>\<^verbatim>\<open>/^Array<(.+)>$/\<close>\<close>
  "matchArrayGeneric t =
     (let inner = butlast (drop 6 t)
      in if startsWith ''Array<'' t \<and> 8 \<le> length t \<and> last t = CHR ''>''
            \<and> \<not> (\<exists>c\<in>set inner. isLineTerminator c)
         then Some inner else None)"

definition matchRecordGeneric :: "string \<Rightarrow> string option" where
  \<comment> \<open>\<^verbatim>\<open>/^Record<\s*string\s*,\s*(.+)>$/\<close>\<close>
  "matchRecordGeneric t =
     (if \<not> startsWith ''Record<'' t then None
      else
        let r1 = dropWhile isWhiteSpace (drop 7 t)
        in if \<not> startsWith ''string'' r1 then None
           else
             let r2 = dropWhile isWhiteSpace (drop 6 r1)
             in if \<not> startsWith '','' r2 then None
                else
                  let r3 = drop 1 r2
                  in if r3 = [] \<or> last r3 \<noteq> CHR ''>'' then None
                     else matchRest (butlast r3))"

function splitParts :: "string \<Rightarrow> string list" where
  \<comment> \<open>\<^verbatim>\<open>inner.split(/[;,]\s*/)\<close>\<close>
  "splitParts [] = [[]]"
| "splitParts (c # cs) =
     (if c = CHR '';'' \<or> c = CHR '','' then [] # splitParts (dropWhile isWhiteSpace cs)
      else (case splitParts cs of [] \<Rightarrow> [[c]] | w # ws \<Rightarrow> (c # w) # ws))"
  by pat_completeness auto
termination
  by (relation "measure length") (auto simp: le_imp_less_Suc length_dropWhile_le)

definition matchMember :: "string \<Rightarrow> (string \<times> bool \<times> string) option" where
  \<comment> \<open>\<^verbatim>\<open>/^(\w+)(\?)?:\s*(.+)$/\<close>: the name, whether the question mark is there, the type\<close>
  "matchMember part =
     (let name = takeWhile isWordChar part; r = dropWhile isWordChar part;
          opt = startsWith ''?'' r; r' = (if opt then drop 1 r else r)
      in if name = [] \<or> \<not> startsWith '':'' r' then None
         else (case matchRest (drop 1 r') of None \<Rightarrow> None | Some vtype \<Rightarrow> Some (name, opt, vtype)))"

definition objectMembers :: "string \<Rightarrow> (string \<times> bool \<times> string) list" where
  "objectMembers t = List.map_filter matchMember (nonEmpty (splitParts (trim (slice_inner t))))"

definition orEmpty :: "schema option \<Rightarrow> schema" where
  \<comment> \<open>\<^verbatim>\<open>s ?? {}\<close>\<close>
  "orEmpty s = (case s of None \<Rightarrow> SEmpty False | Some x \<Rightarrow> x)"

lemma length_trim: "length (trim s) \<le> length s"
  unfolding trim_def
  by (metis length_dropWhile_le length_rev order_trans)

lemma matchRest_length: "matchRest r = Some v \<Longrightarrow> length v \<le> length r"
proof -
  assume a: "matchRest r = Some v"
  have 1: "length (dropWhile isWhiteSpace r) \<le> length r" by (rule length_dropWhile_le)
  have 2: "takeWhile isWhiteSpace r \<noteq> [] \<Longrightarrow> 1 \<le> length r"
    by (cases r) auto
  show ?thesis using a 1 2
    by (auto simp: matchRest_def Let_def split: if_splits)
qed

lemma splitParts_length: "p \<in> set (splitParts s) \<Longrightarrow> length p \<le> length s"
proof (induction s arbitrary: p rule: splitParts.induct)
  case 1
  then show ?case by simp
next
  case (2 c cs)
  show ?case
  proof (cases "c = CHR '';'' \<or> c = CHR '',''")
    case True
    then have "p = [] \<or> p \<in> set (splitParts (dropWhile isWhiteSpace cs))"
      using "2.prems" by auto
    then show ?thesis
    proof
      assume "p = []" then show ?thesis by simp
    next
      assume "p \<in> set (splitParts (dropWhile isWhiteSpace cs))"
      then have "length p \<le> length (dropWhile isWhiteSpace cs)"
        using "2.IH"(1) True by blast
      then show ?thesis
        using length_dropWhile_le[of isWhiteSpace cs] by simp
    qed
  next
    case False
    show ?thesis
    proof (cases "splitParts cs")
      case Nil
      then show ?thesis using False "2.prems" by simp
    next
      case (Cons w ws)
      then have "p = c # w \<or> p \<in> set ws" using False "2.prems" by simp
      moreover have "length w \<le> length cs" using Cons "2.IH"(2)[of w] False by simp
      moreover have "p \<in> set ws \<Longrightarrow> length p \<le> length cs" using Cons "2.IH"(2)[of p] False by simp
      ultimately show ?thesis by auto
    qed
  qed
qed

lemma matchMember_length: "matchMember part = Some (name, opt, vtype) \<Longrightarrow> length vtype < length part"
proof -
  assume a: "matchMember part = Some (name, opt, vtype)"
  define r where "r = dropWhile isWordChar part"
  define r' where "r' = (if startsWith ''?'' r then drop 1 r else r)"
  have sw: "startsWith '':'' r'" and mr: "matchRest (drop 1 r') = Some vtype"
    using a by (auto simp: matchMember_def Let_def r_def r'_def split: if_splits option.splits)
  have "r' \<noteq> []" using sw by (auto simp: startsWith_def)
  then have "length (drop 1 r') < length r'" by (cases r') auto
  moreover have "length r' \<le> length r" by (simp add: r'_def)
  moreover have "length r \<le> length part" unfolding r_def by (rule length_dropWhile_le)
  ultimately show ?thesis using matchRest_length[OF mr] by linarith
qed

lemma objectMembers_length:
  assumes "t \<noteq> []" "(name, opt, vtype) \<in> set (objectMembers t)"
  shows "length vtype < length t"
proof -
  obtain part where p: "part \<in> set (splitParts (trim (slice_inner t)))"
    and m: "matchMember part = Some (name, opt, vtype)"
    using assms(2) by (auto simp: objectMembers_def nonEmpty_def List.map_filter_def)
  have "length part \<le> length (trim (slice_inner t))" using p by (rule splitParts_length)
  also have "\<dots> \<le> length (slice_inner t)" by (rule length_trim)
  also have "\<dots> \<le> length t" by (simp add: slice_inner_def)
  finally show ?thesis using matchMember_length[OF m] by linarith
qed

definition truthyGroup :: "string option \<Rightarrow> string option" where
  \<comment> \<open>\<^verbatim>\<open>m && m[1]\<close>: the expression matched and its group is not empty\<close>
  "truthyGroup m = (case m of None \<Rightarrow> None | Some g \<Rightarrow> if g \<noteq> [] then Some g else None)"

lemma truthyGroup_Some: "truthyGroup m = Some g \<Longrightarrow> m = Some g"
  by (auto simp: truthyGroup_def split: option.splits if_splits)

lemma matchArraySuffix_length: "matchArraySuffix t = Some g \<Longrightarrow> length g < length t"
  by (auto simp: matchArraySuffix_def endsWith_def split: if_splits)

lemma matchArrayGeneric_length: "matchArrayGeneric t = Some g \<Longrightarrow> length g < length t"
  by (auto simp: matchArrayGeneric_def Let_def split: if_splits)

lemma matchRecordGeneric_length: "matchRecordGeneric t = Some g \<Longrightarrow> length g < length t"
proof -
  assume a: "matchRecordGeneric t = Some g"
  define r1 where "r1 = dropWhile isWhiteSpace (drop 7 t)"
  define r2 where "r2 = dropWhile isWhiteSpace (drop 6 r1)"
  define r3 where "r3 = drop 1 r2"
  have ne: "r3 \<noteq> []" and mr: "matchRest (butlast r3) = Some g"
    using a by (auto simp: matchRecordGeneric_def Let_def r1_def r2_def r3_def split: if_splits)
  have "length r3 \<le> length r2" by (simp add: r3_def)
  moreover have "length r2 \<le> length r1"
    unfolding r2_def using length_dropWhile_le[of isWhiteSpace "drop 6 r1"] by simp
  moreover have "length r1 \<le> length t"
    unfolding r1_def using length_dropWhile_le[of isWhiteSpace "drop 7 t"] by simp
  moreover have "length (butlast r3) < length r3" using ne by simp
  ultimately show ?thesis using matchRest_length[OF mr] by linarith
qed

lemma group_shorter:
  assumes "length g < length (trim typeText)"
  shows "length (trim g) < length typeText"
  using assms length_trim[of g] length_trim[of typeText] by linarith

lemma arraySuffix_shorter:
  "truthyGroup (matchArraySuffix (trim typeText)) = Some g \<Longrightarrow> length (trim g) < length typeText"
  using truthyGroup_Some matchArraySuffix_length group_shorter by blast

lemma arrayGeneric_shorter:
  "truthyGroup (matchArrayGeneric (trim typeText)) = Some g \<Longrightarrow> length (trim g) < length typeText"
  using truthyGroup_Some matchArrayGeneric_length group_shorter by blast

lemma recordGeneric_shorter:
  "truthyGroup (matchRecordGeneric (trim typeText)) = Some g \<Longrightarrow> length (trim g) < length typeText"
  using truthyGroup_Some matchRecordGeneric_length group_shorter by blast

lemma member_shorter:
  assumes "startsWith ''{'' (trim typeText)" "m \<in> set (objectMembers (trim typeText))"
  shows "length (snd (snd m)) < length typeText"
proof -
  obtain name opt vtype where m: "m = (name, opt, vtype)" by (cases m) auto
  have "trim typeText \<noteq> []" using assms(1) by (auto simp: startsWith_def)
  then have "length vtype < length (trim typeText)" using assms(2) m objectMembers_length by blast
  then show ?thesis using m length_trim[of typeText] by simp
qed

function typeTextToSchemaStr :: "string \<Rightarrow> schema option" where
  "typeTextToSchemaStr typeText =
     (if typeText = [] then None
      else
        let t = trim typeText
        in if t = ''string'' \<or> t = ''String'' then Some (SPrim ''string'' None False)
           else if t = ''number'' \<or> t = ''Number'' then Some (SPrim ''number'' None False)
           else if t = ''boolean'' \<or> t = ''Boolean'' then Some (SPrim ''boolean'' None False)
           else if t = ''null'' then Some (SPrim ''null'' None False)
           else if t = ''undefined'' \<or> t = ''void'' then Some (SEmpty True)
           else
             (case truthyGroup (matchArraySuffix t) of
                Some g \<Rightarrow> Some (SArray (orEmpty (typeTextToSchemaStr (trim g))) False)
              | None \<Rightarrow>
             (case truthyGroup (matchArrayGeneric t) of
                Some g \<Rightarrow> Some (SArray (orEmpty (typeTextToSchemaStr (trim g))) False)
              | None \<Rightarrow>
             (case truthyGroup (matchRecordGeneric t) of
                Some g \<Rightarrow> Some (SRecord (orEmpty (typeTextToSchemaStr (trim g))) False)
              | None \<Rightarrow>
                if startsWith ''{'' t \<and> endsWith ''}'' t then
                  let members = map (\<lambda>m. (fst m, fst (snd m), orEmpty (typeTextToSchemaStr (snd (snd m)))))
                                  (objectMembers t);
                      props = fold (\<lambda>m acc. setProperty (fst m) (snd (snd m)) acc) members [];
                      required = map fst (filter (\<lambda>m. \<not> fst (snd m)) members)
                  in Some (SObject props (if required \<noteq> [] then Some required else None) False)
                else Some (SDescription (''Unparsed type: '' @ t) False)))))"
  by pat_completeness auto
termination
  by (relation "measure length")
     (auto intro: arraySuffix_shorter arrayGeneric_shorter recordGeneric_shorter member_shorter)

declare typeTextToSchemaStr.simps [simp del]

definition typeTextToSchema :: "string option \<Rightarrow> schema option" where
  "typeTextToSchema typeText = (case typeText of None \<Rightarrow> None | Some s \<Rightarrow> typeTextToSchemaStr s)"

section \<open>analyzer.ts: route records\<close>

type_synonym headerMap = "(string \<times> schema) list"
  \<comment> \<open>\<^verbatim>\<open>Record<string, any>\<close>: a header's name and the schema of its value\<close>

text \<open>
  An element of \<^verbatim>\<open>RouteInfo.responses\<close>. Statuses are whole numbers. The optional
  \<^verbatim>\<open>description\<close> of the TypeScript type is never written or read and is left out.
\<close>

record responseItem =
  status :: int
  schema :: "schema option"
  mediaType :: "string option"
  headers :: "headerMap option"

record RouteInfo =
  method' :: string
  path :: string
  responseTypeText :: "string option"
  responseSchema :: "schema option"
  requestBodySchema :: "schema option"
  querySchema :: "schema option"
  pathParams :: "string list option"
  responses :: "responseItem list option"
  middlewareScopes :: "string list option"

section \<open>schema.ts: the document assembler\<close>

text \<open>
  JavaScript objects used as dictionaries (\<^verbatim>\<open>paths\<close>, the operations of a path, the
  responses of an operation) are association lists: an assignment to a key replaces the
  value where the key stands, or adds the key at the end. The order in which JavaScript
  enumerates keys that look like numbers is not modelled.
\<close>

record parameterObject =
  param_name :: string
  param_in :: string
  param_required :: bool
  param_schema :: schema

record responseObject =
  description :: string
  response_headers :: "headerMap option"
  content :: "(string \<times> schema) option"
    \<comment> \<open>\<^verbatim>\<open>{ [mediaType]: { schema } }\<close>\<close>

record requestBodyObject =
  body_required :: bool
  body_content :: "string \<times> schema"

record operationObject =
  parameters :: "parameterObject list option"
  tags :: "string list option"
  operation_description :: "string option"
  requestBody :: "requestBodyObject option"
  operation_responses :: "(string \<times> responseObject) list"



definition digit_char :: "nat \<Rightarrow> char" where
  "digit_char d = char_of (48 + d)"

function string_of_nat :: "nat \<Rightarrow> string" where
  "string_of_nat n = (if n < 10 then [digit_char n] else string_of_nat (n div 10) @ [digit_char (n mod 10)])"
  by pat_completeness auto
termination
  by (relation "measure id") auto

declare string_of_nat.simps [simp del]

definition String :: "int \<Rightarrow> string" where
  \<comment> \<open>\<^verbatim>\<open>String(n)\<close> for a whole number that a JavaScript number holds exactly (a magnitude
      up to \<open>2\<^sup>5\<^sup>3\<close>), which is printed with all its digits\<close>
  "String n = (if n < 0 then CHR ''-'' # string_of_nat (nat (- n)) else string_of_nat (nat n))"

definition statusOr200 :: "int \<Rightarrow> int" where
  \<comment> \<open>\<^verbatim>\<open>respItem.status || 200\<close>\<close>
  "statusOr200 s = (if s = 0 then 200 else s)"

definition responseCode :: "responseItem \<Rightarrow> string" where
  "responseCode respItem = String (statusOr200 (status respItem))"

definition renderResponse :: "responseItem \<Rightarrow> responseObject" where
  \<comment> \<open>the body of the loop over \<^verbatim>\<open>collected\<close>: the response object \<^verbatim>\<open>ro\<close>\<close>
  "renderResponse respItem =
     \<lparr> description = ''OK'',
       response_headers = headers respItem,
       content =
         (case schema respItem of
            None \<Rightarrow> None
          | Some s \<Rightarrow>
              Some (case mediaType respItem of
                      None \<Rightarrow> ''application/json''
                    | Some mt \<Rightarrow> if mt \<noteq> [] then mt else ''application/json'', s)) \<rparr>"

definition legacySchema :: "RouteInfo \<Rightarrow> schema option" where
  \<comment> \<open>\<^verbatim>\<open>r.responseSchema ?? typeTextToSchema(r.responseTypeText)\<close>\<close>
  "legacySchema r =
     (case responseSchema r of Some s \<Rightarrow> Some s | None \<Rightarrow> typeTextToSchema (responseTypeText r))"

definition operationResponses :: "RouteInfo \<Rightarrow> (string \<times> responseObject) list" where
  "operationResponses r =
     (case responses r of
        Some (respItem # rest) \<Rightarrow>
          fold (\<lambda>item acc. AList.update (responseCode item) (renderResponse item) acc) (respItem # rest) []
      | _ \<Rightarrow>
          [(''200'',
            \<lparr> description = ''OK'', response_headers = None,
              content = (case legacySchema r of None \<Rightarrow> None | Some s \<Rightarrow> Some (''application/json'', s)) \<rparr>)])"

definition pathParameters :: "RouteInfo \<Rightarrow> parameterObject list" where
  "pathParameters r =
     (case pathParams r of
        None \<Rightarrow> []
      | Some ps \<Rightarrow>
          map (\<lambda>p. \<lparr> param_name = p, param_in = ''path'', param_required = True,
                      param_schema = SPrim ''string'' None False \<rparr>) ps)"

definition queryParameters :: "RouteInfo \<Rightarrow> parameterObject list" where
  \<comment> \<open>only an object schema has the key \<^verbatim>\<open>properties\<close>\<close>
  "queryParameters r =
     (case querySchema r of
        Some (SObject props required _) \<Rightarrow>
          (let req = (case required of Some names \<Rightarrow> set names | None \<Rightarrow> {})
           in map (\<lambda>p. \<lparr> param_name = fst p, param_in = ''query'', param_required = (fst p \<in> req),
                           param_schema = snd p \<rparr>) props)
      | _ \<Rightarrow> [])"

definition operationOf :: "RouteInfo \<Rightarrow> operationObject" where
  \<comment> \<open>the operation \<^verbatim>\<open>op\<close> built for one route\<close>
  "operationOf r =
     (let params = pathParameters r @ queryParameters r;
          scopes = (case middlewareScopes r of Some (s # ss) \<Rightarrow> Some (s # ss) | _ \<Rightarrow> None)
      in \<lparr> parameters = (if params \<noteq> [] then Some params else None),
           tags = scopes,
           operation_description =
             (case scopes of None \<Rightarrow> None
              | Some sc \<Rightarrow> Some (''Middleware applied from: '' @ join '', '' sc)),
           requestBody =
             (case requestBodySchema r of None \<Rightarrow> None
              | Some s \<Rightarrow> Some \<lparr> body_required = True, body_content = (''application/json'', s) \<rparr>),
           operation_responses = operationResponses r \<rparr>)"




section \<open>The syntax tree\<close>

text \<open>
  The nodes of the TypeScript syntax tree that the analyzer tells apart, each with the
  fields the analyzer reads. The first field of every node is its identity (its position in
  the file): the checker is asked about a node by this number. Every other kind of node is
  an \<open>OtherNode\<close> with its children. A property access carries the text of its name;
  type annotations and tokens hold no expression and are not children.
\<close>

datatype node =
    Identifier nat string
  | StringLiteral nat string
  | NoSubstitutionTemplateLiteral nat string
  | TemplateExpression nat string "node list"
      \<comment> \<open>the text of the head and the template spans\<close>
  | NumericLiteral nat int
      \<comment> \<open>\<^verbatim>\<open>Number(e.text)\<close>, a whole number\<close>
  | PrefixUnaryExpression nat string node
      \<comment> \<open>the operator and the operand\<close>
  | PropertyAccessExpression nat node string
      \<comment> \<open>\<^verbatim>\<open>expression\<close> and \<^verbatim>\<open>name.getText()\<close>\<close>
  | CallExpression nat node "node list"
      \<comment> \<open>\<^verbatim>\<open>expression\<close> and \<^verbatim>\<open>arguments\<close>\<close>
  | NewExpression nat node "node list option"
  | ParenthesizedExpression nat node
  | AsExpression nat node
  | TypeAssertionExpression nat node
  | NonNullExpression nat node
  | AwaitExpression nat node
  | ArrowFunction nat "node list" node
      \<comment> \<open>\<^verbatim>\<open>parameters\<close> and \<^verbatim>\<open>body\<close>\<close>
  | FunctionExpression nat "node list" node
  | Parameter nat node "node option"
      \<comment> \<open>\<^verbatim>\<open>name\<close> and \<^verbatim>\<open>initializer\<close>\<close>
  | ReturnStatement nat "node option"
  | ObjectLiteralExpression nat "node list"
  | PropertyAssignment nat node node
      \<comment> \<open>\<^verbatim>\<open>name\<close> and \<^verbatim>\<open>initializer\<close>\<close>
  | VariableDeclaration nat node "nat option" "node option"
      \<comment> \<open>\<^verbatim>\<open>name\<close>, the identity of the type annotation, and \<^verbatim>\<open>initializer\<close>\<close>
  | EnumMember nat "node option"
      \<comment> \<open>\<^verbatim>\<open>initializer\<close>\<close>
  | OtherNode nat "node list"

fun nodeId :: "node \<Rightarrow> nat" where
  "nodeId (Identifier i _) = i"
| "nodeId (StringLiteral i _) = i"
| "nodeId (NoSubstitutionTemplateLiteral i _) = i"
| "nodeId (TemplateExpression i _ _) = i"
| "nodeId (NumericLiteral i _) = i"
| "nodeId (PrefixUnaryExpression i _ _) = i"
| "nodeId (PropertyAccessExpression i _ _) = i"
| "nodeId (CallExpression i _ _) = i"
| "nodeId (NewExpression i _ _) = i"
| "nodeId (ParenthesizedExpression i _) = i"
| "nodeId (AsExpression i _) = i"
| "nodeId (TypeAssertionExpression i _) = i"
| "nodeId (NonNullExpression i _) = i"
| "nodeId (AwaitExpression i _) = i"
| "nodeId (ArrowFunction i _ _) = i"
| "nodeId (FunctionExpression i _ _) = i"
| "nodeId (Parameter i _ _) = i"
| "nodeId (ReturnStatement i _) = i"
| "nodeId (ObjectLiteralExpression i _) = i"
| "nodeId (PropertyAssignment i _ _) = i"
| "nodeId (VariableDeclaration i _ _ _) = i"
| "nodeId (EnumMember i _) = i"
| "nodeId (OtherNode i _) = i"

fun children :: "node \<Rightarrow> node list" where
  \<comment> \<open>the nodes \<^verbatim>\<open>ts.forEachChild\<close> visits, in the order of the source text\<close>
  "children (Identifier _ _) = []"
| "children (StringLiteral _ _) = []"
| "children (NoSubstitutionTemplateLiteral _ _) = []"
| "children (TemplateExpression _ _ spans) = spans"
| "children (NumericLiteral _ _) = []"
| "children (PrefixUnaryExpression _ _ operand) = [operand]"
| "children (PropertyAccessExpression _ e _) = [e]"
| "children (CallExpression _ e args) = e # args"
| "children (NewExpression _ e args) = e # (case args of None \<Rightarrow> [] | Some as \<Rightarrow> as)"
| "children (ParenthesizedExpression _ e) = [e]"
| "children (AsExpression _ e) = [e]"
| "children (TypeAssertionExpression _ e) = [e]"
| "children (NonNullExpression _ e) = [e]"
| "children (AwaitExpression _ e) = [e]"
| "children (ArrowFunction _ params body) = params @ [body]"
| "children (FunctionExpression _ params body) = params @ [body]"
| "children (Parameter _ name init) = name # (case init of None \<Rightarrow> [] | Some e \<Rightarrow> [e])"
| "children (ReturnStatement _ e) = (case e of None \<Rightarrow> [] | Some x \<Rightarrow> [x])"
| "children (ObjectLiteralExpression _ props) = props"
| "children (PropertyAssignment _ name init) = [name, init]"
| "children (VariableDeclaration _ name _ init) = name # (case init of None \<Rightarrow> [] | Some e \<Rightarrow> [e])"
| "children (EnumMember _ init) = (case init of None \<Rightarrow> [] | Some e \<Rightarrow> [e])"
| "children (OtherNode _ cs) = cs"

lemma size_in_list: "c \<in> set cs \<Longrightarrow> size c \<le> size_list size cs"
  by (induction cs) auto

lemma size_children: "c \<in> set (children n) \<Longrightarrow> size c < size n"
  by (cases n) (auto simp: less_Suc_eq_le split: option.splits dest: size_in_list intro: trans_le_add1)

subsection \<open>Visitors\<close>

text \<open>
  Every visitor of the analyzer is a closure \<^verbatim>\<open>visit\<close> that looks at a node, updates the
  variables it has captured, and ends with \<^verbatim>\<open>ts.forEachChild(node, visit)\<close>. The captured
  variables are the state \<open>'s\<close>, passed from node to node.
\<close>

function visitWith :: "(node \<Rightarrow> 's \<Rightarrow> 's) \<Rightarrow> node \<Rightarrow> 's \<Rightarrow> 's" where
  "visitWith act n s = fold (visitWith act) (children n) (act n s)"
  by pat_completeness auto
termination
  by (relation "measure (\<lambda>(act, n, s). size n)") (auto simp: size_children)

declare visitWith.simps [simp del]

definition forEachChild :: "(node \<Rightarrow> 's \<Rightarrow> 's) \<Rightarrow> node \<Rightarrow> 's \<Rightarrow> 's" where
  \<comment> \<open>\<^verbatim>\<open>ts.forEachChild(cb, visit)\<close>: the visitor runs on the children of \<open>cb\<close>, not on \<open>cb\<close>\<close>
  "forEachChild act cb s = fold (visitWith act) (children cb) s"

function preorder :: "node \<Rightarrow> node list" where
  \<comment> \<open>a node and all nodes below it, in document order\<close>
  "preorder n = n # concat (map preorder (children n))"
  by pat_completeness auto
termination
  by (relation "measure size") (auto simp: size_children)

declare preorder.simps [simp del]

definition descendants :: "node \<Rightarrow> node list" where
  \<comment> \<open>the nodes below a node, in document order\<close>
  "descendants n = concat (map preorder (children n))"

section \<open>analyzer.ts: the checker and small recognizers\<close>

text \<open>
  What the analyzer asks of the program and its checker: the type table, the type of an
  expression and of a type annotation (both by the identity of the node), the declarations
  of the symbol a node carries (\<^verbatim>\<open>node.symbol\<close>, a finite table) and of the symbol the
  checker resolves a property name to, and the source text of a node.
\<close>

record checker =
  typeInfo :: typeTable
  getTypeAtLocation :: "nat \<Rightarrow> nat"
  getTypeFromTypeNode :: "nat \<Rightarrow> nat"
  nodeSymbol :: "(nat \<times> node list) list"
  getSymbolAtLocation :: "nat \<Rightarrow> node list option"
  sourceText :: "nat \<Rightarrow> string"

definition HttpMethods :: "string list" where
  "HttpMethods = [''get'', ''post'', ''put'', ''patch'', ''delete'', ''options'', ''head'']"

definition stringLiteralLike :: "node \<Rightarrow> string option" where
  \<comment> \<open>\<^verbatim>\<open>ts.isStringLiteralLike(n)\<close>, and then \<^verbatim>\<open>n.text\<close>\<close>
  "stringLiteralLike n =
     (case n of StringLiteral _ s \<Rightarrow> Some s | NoSubstitutionTemplateLiteral _ s \<Rightarrow> Some s | _ \<Rightarrow> None)"

definition identifierText :: "node \<Rightarrow> string option" where
  \<comment> \<open>\<^verbatim>\<open>ts.isIdentifier(n)\<close>, and then \<^verbatim>\<open>n.text\<close>\<close>
  "identifierText n = (case n of Identifier _ s \<Rightarrow> Some s | _ \<Rightarrow> None)"

definition getText :: "checker \<Rightarrow> node \<Rightarrow> string" where
  \<comment> \<open>\<^verbatim>\<open>n.getText()\<close>: an identifier's text, the source text of any other node\<close>
  "getText c n = (case n of Identifier _ s \<Rightarrow> s | _ \<Rightarrow> sourceText c (nodeId n))"

definition nth_opt :: "'a list \<Rightarrow> nat \<Rightarrow> 'a option" where
  \<comment> \<open>\<^verbatim>\<open>xs[i]\<close>, which is \<^verbatim>\<open>undefined\<close> out of range\<close>
  "nth_opt xs i = (if i < length xs then Some (xs ! i) else None)"

definition noName :: "string option \<Rightarrow> bool" where
  \<comment> \<open>\<^verbatim>\<open>!paramName\<close>\<close>
  "noName p = (p = None \<or> p = Some [])"

definition orElse :: "string option \<Rightarrow> string option \<Rightarrow> string option" where
  \<comment> \<open>\<^verbatim>\<open>a || b\<close> on strings that may be \<^verbatim>\<open>undefined\<close>\<close>
  "orElse a b = (case a of Some s \<Rightarrow> if s \<noteq> [] then Some s else b | None \<Rightarrow> b)"

definition isHonoRouteCall :: "node \<Rightarrow> (string \<times> string) option" where
  \<comment> \<open>the method and the path of a route registration\<close>
  "isHonoRouteCall n =
     (case n of
        CallExpression _ expr args \<Rightarrow>
          (case expr of
             PropertyAccessExpression _ _ methodName \<Rightarrow>
               if methodName \<notin> set HttpMethods then None
               else
                 (case nth_opt args 0 of
                    None \<Rightarrow> None
                  | Some firstArg \<Rightarrow>
                      (case stringLiteralLike firstArg of
                         None \<Rightarrow> None
                       | Some p \<Rightarrow> Some (methodName, p)))
           | _ \<Rightarrow> None)
      | _ \<Rightarrow> None)"

fun stripParensAndCasts :: "node \<Rightarrow> node" where
  "stripParensAndCasts (ParenthesizedExpression _ e) = stripParensAndCasts e"
| "stripParensAndCasts (AsExpression _ e) = stripParensAndCasts e"
| "stripParensAndCasts (TypeAssertionExpression _ e) = stripParensAndCasts e"
| "stripParensAndCasts (NonNullExpression _ e) = stripParensAndCasts e"
| "stripParensAndCasts e = e"

definition isCtxMember :: "node \<Rightarrow> string option \<Rightarrow> string \<Rightarrow> bool" where
  "isCtxMember base ctxName member =
     (case stripParensAndCasts base of
        PropertyAccessExpression _ e name \<Rightarrow>
          if name \<noteq> member then False
          else if noName ctxName then True
          else (case stripParensAndCasts e of Identifier _ t \<Rightarrow> Some t = ctxName | _ \<Rightarrow> False)
      | _ \<Rightarrow> False)"

definition firstDeclarationInit :: "node list \<Rightarrow> node option" where
  \<comment> \<open>the initializer of \<^verbatim>\<open>declarations[0]\<close> when that is a variable declaration with one\<close>
  "firstDeclarationInit ds =
     (case ds of
        [] \<Rightarrow> None
      | d # _ \<Rightarrow> (case d of VariableDeclaration _ _ _ init \<Rightarrow> init | _ \<Rightarrow> None))"

definition resolveIdentifierToInit :: "checker \<Rightarrow> node \<Rightarrow> node option" where
  "resolveIdentifierToInit c expr =
     (case stripParensAndCasts expr of
        Identifier i _ \<Rightarrow>
          (case map_of (nodeSymbol c) i of None \<Rightarrow> None | Some ds \<Rightarrow> firstDeclarationInit ds)
      | _ \<Rightarrow> None)"

definition quotedText :: "string \<Rightarrow> string option" where
  \<comment> \<open>\<^verbatim>\<open>/^".*"$/.test(s)\<close>, and then \<^verbatim>\<open>s.slice(1, -1)\<close>\<close>
  "quotedText s =
     (if 2 \<le> length s \<and> hd s = CHR 0x22 \<and> last s = CHR 0x22
         \<and> \<not> (\<exists>ch\<in>set (slice_inner s). isLineTerminator ch)
      then Some (slice_inner s) else None)"

text \<open>
  The loop of \<^verbatim>\<open>resolveToStringLiteralText\<close>. Its set \<^verbatim>\<open>seen\<close> holds the expressions
  already looked at, by identity. The loop goes on only from an identifier whose symbol
  is in the table and which is not in \<^verbatim>\<open>seen\<close>, so it ends.
\<close>

function resolveLoop :: "checker \<Rightarrow> bool \<Rightarrow> node \<Rightarrow> nat list \<Rightarrow> string option" where
  "resolveLoop c useChecker e seen =
     (if nodeId e \<in> set seen then None
      else
        (case stringLiteralLike e of
           Some s \<Rightarrow> Some s
         | None \<Rightarrow>
             (case e of
                TemplateExpression _ headText spans \<Rightarrow> if spans = [] then Some headText else None
              | Identifier i _ \<Rightarrow>
                  (case resolveIdentifierToInit c e of
                     Some init \<Rightarrow> resolveLoop c useChecker (stripParensAndCasts init) (nodeId e # seen)
                   | None \<Rightarrow>
                       if useChecker
                       then quotedText (typeString (typeInfo c (getTypeAtLocation c i)))
                       else None)
              | _ \<Rightarrow> None)))"
  by pat_completeness auto
termination
proof (relation "measure (\<lambda>(c, u, e, seen). card (fst ` set (nodeSymbol c) - set seen))", goal_cases)
  case 1
  show ?case by simp
next
  case (2 c useChecker e seen i name init)
  have "map_of (nodeSymbol c) i \<noteq> None"
    using 2 by (auto simp: resolveIdentifierToInit_def split: option.splits)
  then have "i \<in> fst ` set (nodeSymbol c)"
    by (metis map_of_eq_None_iff)
  moreover have "i \<notin> set seen" using 2 by simp
  ultimately have "card (fst ` set (nodeSymbol c) - set (i # seen)) < card (fst ` set (nodeSymbol c) - set seen)"
    by (intro psubset_card_mono) auto
  then show ?case using 2 by simp
qed

declare resolveLoop.simps [simp del]

definition resolveToStringLiteralText :: "checker \<Rightarrow> bool \<Rightarrow> node \<Rightarrow> string option" where
  \<comment> \<open>the flag says whether a checker was passed\<close>
  "resolveToStringLiteralText c useChecker expr = resolveLoop c useChecker (stripParensAndCasts expr) []"

section \<open>analyzer.ts: status codes\<close>

fun uniqueFirst :: "'a list \<Rightarrow> 'a list \<Rightarrow> 'a list" where
  \<comment> \<open>\<^verbatim>\<open>Array.from(new Set(out))\<close>: the first occurrence of each value, in order\<close>
  "uniqueFirst [] acc = acc"
| "uniqueFirst (x # xs) acc = (if x \<in> set acc then uniqueFirst xs acc else uniqueFirst xs (acc @ [x]))"

definition isDigits :: "string \<Rightarrow> bool" where
  \<comment> \<open>\<^verbatim>\<open>/^\d+$/.test(s)\<close>\<close>
  "isDigits s = (s \<noteq> [] \<and> (\<forall>ch\<in>set s. 48 \<le> (of_char ch :: nat) \<and> (of_char ch :: nat) \<le> 57))"

definition parseInt :: "string \<Rightarrow> int" where
  \<comment> \<open>\<^verbatim>\<open>parseInt(s, 10)\<close> of a string of digits\<close>
  "parseInt s = int (foldl (\<lambda>acc ch. 10 * acc + (of_char ch - 48)) 0 s)"

definition numbersOfMember :: "checker \<Rightarrow> nat \<Rightarrow> int list" where
  \<comment> \<open>\<^verbatim>\<open>addFrom\<close>: what one type adds to \<^verbatim>\<open>out\<close>\<close>
  "numbersOfMember c tt =
     (let ty = typeInfo c tt
      in if flagNumberLiteral ty then
           (case literalNumber ty of
              Some v \<Rightarrow> [v]
            | None \<Rightarrow> if isDigits (typeString ty) then [parseInt (typeString ty)] else [])
         else if isDigits (typeString ty) then [parseInt (typeString ty)] else [])"

definition numbersFromType :: "checker \<Rightarrow> nat \<Rightarrow> int list" where
  "numbersFromType c t =
     (let out = (case unionTypes (typeInfo c t) of
                   Some parts \<Rightarrow> concat (map (numbersOfMember c) parts)
                 | None \<Rightarrow> numbersOfMember c t)
      in uniqueFirst out [])"

fun enumMemberValue :: "node list \<Rightarrow> int option" where
  \<comment> \<open>the loop over the declarations of the name's symbol\<close>
  "enumMemberValue [] = None"
| "enumMemberValue (d # ds) =
     (case d of
        EnumMember _ init \<Rightarrow>
          (case init of
             None \<Rightarrow> None
           | Some e \<Rightarrow>
               (case e of
                  NumericLiteral _ v \<Rightarrow> Some v
                | PrefixUnaryExpression _ operator operand \<Rightarrow>
                    (case operand of
                       NumericLiteral _ v \<Rightarrow> if operator = ''-'' then Some (- v) else enumMemberValue ds
                     | _ \<Rightarrow> enumMemberValue ds)
                | _ \<Rightarrow> enumMemberValue ds))
      | _ \<Rightarrow> enumMemberValue ds)"

definition tryGetEnumMemberValue :: "checker \<Rightarrow> node \<Rightarrow> int option" where
  \<comment> \<open>the checker is asked for the symbol of the access's name, by the access's identity\<close>
  "tryGetEnumMemberValue c pae =
     (case getSymbolAtLocation c (nodeId pae) of None \<Rightarrow> None | Some ds \<Rightarrow> enumMemberValue ds)"

definition extractStatuses :: "checker \<Rightarrow> node \<Rightarrow> int list" where
  "extractStatuses c expr =
     (let e = stripParensAndCasts expr
      in case e of
           NumericLiteral _ v \<Rightarrow> [v]
         | PropertyAccessExpression _ _ _ \<Rightarrow>
             (case tryGetEnumMemberValue c e of
                Some v \<Rightarrow> [v]
              | None \<Rightarrow> numbersFromType c (getTypeAtLocation c (nodeId e)))
         | _ \<Rightarrow> numbersFromType c (getTypeAtLocation c (nodeId e)))"

section \<open>analyzer.ts: media types\<close>

fun contains :: "string \<Rightarrow> string \<Rightarrow> bool" where
  \<comment> \<open>a regular expression that is a plain text, tested anywhere in the string\<close>
  "contains p [] = (p = [])"
| "contains p (ch # s) = (startsWith p (ch # s) \<or> contains p s)"

definition isBinaryLikeMember :: "tsType \<Rightarrow> bool" where
  \<comment> \<open>\<^verbatim>\<open>isBinaryLikeType\<close> on a type that is not a union\<close>
  "isBinaryLikeMember ty =
     (let name = symbolName ty; str = typeString ty
      in if noName name \<and> \<not> flagObject ty then False
         else if \<not> noName name \<and> the name \<in> set
              [''ArrayBuffer'', ''SharedArrayBuffer'', ''Uint8Array'', ''Uint8ClampedArray'', ''Int8Array'',
               ''Int16Array'', ''Uint16Array'', ''Int32Array'', ''Uint32Array'', ''BigInt64Array'',
               ''BigUint64Array'', ''Float32Array'', ''Float64Array'', ''ReadableStream'', ''Blob'',
               ''File'', ''FormData'']
         then True
         else if str = ''ReadableStream''
              \<or> (startsWith ''ReadableStream<'' str \<and> endsWith ''>'' str \<and> 16 \<le> length str
                  \<and> \<not> (\<exists>ch\<in>set str. isLineTerminator ch))
         then True
         else if contains ''ArrayBuffer'' str then True
         else contains ''Uint8Array'' str \<or> contains ''Int8Array'' str \<or> contains ''Float32Array'' str
              \<or> contains ''Float64Array'' str \<or> contains ''BigUint64Array'' str
              \<or> contains ''Big64Array'' str)"

definition isBinaryLikeType :: "checker \<Rightarrow> nat \<Rightarrow> bool" where
  \<comment> \<open>the members of a union are not unions: the checker flattens them\<close>
  "isBinaryLikeType c t =
     (case unionTypes (typeInfo c t) of
        Some parts \<Rightarrow> (\<exists>m\<in>set parts. isBinaryLikeMember (typeInfo c m))
      | None \<Rightarrow> isBinaryLikeMember (typeInfo c t))"

definition isStringType :: "checker \<Rightarrow> nat \<Rightarrow> bool" where
  "isStringType c t = flagString (typeInfo c t)"

fun blobTypeOption :: "checker \<Rightarrow> node list \<Rightarrow> string option" where
  \<comment> \<open>the loop over the properties of the options of \<^verbatim>\<open>new Blob\<close> or \<^verbatim>\<open>new File\<close>\<close>
  "blobTypeOption c [] = None"
| "blobTypeOption c (p # ps) =
     (case p of
        PropertyAssignment _ name init \<Rightarrow>
          if identifierText name = Some ''type'' then
            (case stringLiteralLike init of
               Some s \<Rightarrow> Some s
             | None \<Rightarrow>
                 (case resolveToStringLiteralText c True init of
                    Some v \<Rightarrow> if v \<noteq> [] then Some v else blobTypeOption c ps
                  | None \<Rightarrow> blobTypeOption c ps))
          else blobTypeOption c ps
      | _ \<Rightarrow> blobTypeOption c ps)"

definition inferMediaTypeFromExpression :: "checker \<Rightarrow> node option \<Rightarrow> string option" where
  "inferMediaTypeFromExpression c expr =
     (case expr of
        None \<Rightarrow> None
      | Some x \<Rightarrow>
          (case stripParensAndCasts x of
             NewExpression _ callee args \<Rightarrow>
               (let name = getText c callee; as = (case args of None \<Rightarrow> [] | Some xs \<Rightarrow> xs)
                in if name = ''Blob'' \<or> name = ''File'' then
                     (case nth_opt as (if name = ''File'' then 2 else 1) of
                        Some optionsArg \<Rightarrow>
                          (case optionsArg of
                             ObjectLiteralExpression _ props \<Rightarrow> blobTypeOption c props
                           | _ \<Rightarrow> None)
                      | None \<Rightarrow> None)
                   else None)
           | _ \<Rightarrow> None))"

definition headerKey :: "node \<Rightarrow> string option" where
  \<comment> \<open>the name of a property of the \<^verbatim>\<open>headers\<close> object\<close>
  "headerKey name =
     (case identifierText name of Some s \<Rightarrow> Some s | None \<Rightarrow> stringLiteralLike name)"

fun contentTypeHeader :: "checker \<Rightarrow> node list \<Rightarrow> string option" where
  \<comment> \<open>the loop over the properties of the \<^verbatim>\<open>headers\<close> object: \<open>Some\<close> is a \<^verbatim>\<open>return\<close>\<close>
  "contentTypeHeader c [] = None"
| "contentTypeHeader c (h # hs) =
     (case h of
        PropertyAssignment _ name init \<Rightarrow>
          (case headerKey name of
             Some key \<Rightarrow>
               if key \<noteq> [] \<and> toLowerCase key = ''content-type'' then
                 (case stringLiteralLike init of
                    Some s \<Rightarrow> Some s
                  | None \<Rightarrow>
                      (case resolveToStringLiteralText c False init of
                         Some v \<Rightarrow> if v \<noteq> [] then Some v else contentTypeHeader c hs
                       | None \<Rightarrow> contentTypeHeader c hs))
               else contentTypeHeader c hs
           | None \<Rightarrow> contentTypeHeader c hs)
      | _ \<Rightarrow> contentTypeHeader c hs)"

fun responseInitHeaders :: "checker \<Rightarrow> node list \<Rightarrow> string option" where
  \<comment> \<open>the loop over the properties of the init object\<close>
  "responseInitHeaders c [] = None"
| "responseInitHeaders c (p # ps) =
     (case p of
        PropertyAssignment _ name init \<Rightarrow>
          if identifierText name = Some ''headers'' then
            (case init of
               ObjectLiteralExpression _ hs \<Rightarrow>
                 (case contentTypeHeader c hs of
                    Some v \<Rightarrow> Some v
                  | None \<Rightarrow> responseInitHeaders c ps)
             | _ \<Rightarrow> responseInitHeaders c ps)
          else responseInitHeaders c ps
      | _ \<Rightarrow> responseInitHeaders c ps)"

definition inferMediaTypeFromResponseInit :: "checker \<Rightarrow> node option \<Rightarrow> string option" where
  "inferMediaTypeFromResponseInit c init =
     (case init of
        Some x \<Rightarrow> (case x of ObjectLiteralExpression _ props \<Rightarrow> responseInitHeaders c props | _ \<Rightarrow> None)
      | None \<Rightarrow> None)"

fun statusProperty :: "checker \<Rightarrow> node list \<Rightarrow> int list" where
  \<comment> \<open>the loop over the properties of the init object, up to the first \<^verbatim>\<open>status\<close>\<close>
  "statusProperty c [] = []"
| "statusProperty c (p # ps) =
     (case p of
        PropertyAssignment _ name init \<Rightarrow>
          if identifierText name = Some ''status'' then extractStatuses c init else statusProperty c ps
      | _ \<Rightarrow> statusProperty c ps)"

definition extractStatusFromResponseInit :: "checker \<Rightarrow> node option \<Rightarrow> int list" where
  "extractStatusFromResponseInit c init =
     (case init of
        Some x \<Rightarrow> (case x of ObjectLiteralExpression _ props \<Rightarrow> statusProperty c props | _ \<Rightarrow> [])
      | None \<Rightarrow> [])"

section \<open>analyzer.ts: the responses of a handler\<close>

text \<open>An element of the list \<^verbatim>\<open>findResponses\<close> returns.\<close>

record foundResponse =
  found_text :: "string option"
  found_schema :: "schema option"
  found_status :: "int option"
  found_mediaType :: "string option"
  found_headers :: "headerMap option"

definition headerCallValue :: "checker \<Rightarrow> string option \<Rightarrow> node \<Rightarrow> string option" where
  \<comment> \<open>what the visitor of \<^verbatim>\<open>findExplicitContentType\<close> assigns to \<^verbatim>\<open>found\<close> at a node, if anything\<close>
  "headerCallValue c paramName n =
     (case n of
        CallExpression _ expr args \<Rightarrow>
          (case expr of
             PropertyAccessExpression _ base name \<Rightarrow>
               if name = ''header'' \<and> (noName paramName \<or> (identifierText base \<noteq> None \<and> identifierText base = paramName))
               then
                 (case (nth_opt args 0, nth_opt args 1) of
                    (Some k, Some v) \<Rightarrow>
                      (case stringLiteralLike k of
                         Some keyText \<Rightarrow>
                           (case resolveToStringLiteralText c True v of
                              Some val \<Rightarrow>
                                if toLowerCase keyText = ''content-type'' \<and> val \<noteq> [] then Some val else None
                            | None \<Rightarrow> None)
                       | None \<Rightarrow> None)
                  | _ \<Rightarrow> None)
               else None
           | _ \<Rightarrow> None)
      | _ \<Rightarrow> None)"

definition findExplicitContentType :: "checker \<Rightarrow> node \<Rightarrow> string option \<Rightarrow> string option" where
  "findExplicitContentType c cb paramName =
     forEachChild (\<lambda>n found. case headerCallValue c paramName n of Some val \<Rightarrow> Some val | None \<Rightarrow> found)
       cb None"

definition withStatuses :: "int list \<Rightarrow> (int option \<Rightarrow> foundResponse) \<Rightarrow> foundResponse list" where
  \<comment> \<open>one record for each status, or one record with no status\<close>
  "withStatuses statuses mk = (if statuses \<noteq> [] then map (\<lambda>s. mk (Some s)) statuses else [mk None])"

definition isCtxReceiver :: "string option \<Rightarrow> node \<Rightarrow> bool" where
  \<comment> \<open>\<^verbatim>\<open>isCtx\<close>, for the receiver with parentheses and casts removed\<close>
  "isCtxReceiver paramName base =
     (if noName paramName then True
      else
        (case base of
           Identifier _ t \<Rightarrow> Some t = paramName
         | PropertyAccessExpression _ b _ \<Rightarrow> (case b of Identifier _ t \<Rightarrow> Some t = paramName | _ \<Rightarrow> False)
         | _ \<Rightarrow> False))"

definition stringSchema :: schema where
  "stringSchema = SPrim ''string'' None False"

definition binarySchema :: schema where
  "binarySchema = SPrim ''string'' (Some ''binary'') False"

definition callResponses ::
  "nat \<Rightarrow> checker \<Rightarrow> string option \<Rightarrow> string \<Rightarrow> node list \<Rightarrow> foundResponse list option" where
  \<comment> \<open>the records pushed for a call \<^verbatim>\<open>ctx.callName(...args)\<close>; \<open>None\<close> when the synthesis of
      the argument's schema does not return\<close>
  "callResponses depth c explicitContentType callName args =
     (let a0 = nth_opt args 0;
          statuses = (case nth_opt args 1 of None \<Rightarrow> [] | Some statusArg \<Rightarrow> extractStatuses c statusArg)
      in if callName = ''json'' then
           (case a0 of
              None \<Rightarrow> Some []
            | Some a \<Rightarrow>
                (let t = getTypeAtLocation c (nodeId a);
                     text = typeString (typeInfo c t)
                 in case typeToSchema depth (typeInfo c) t {} of
                      None \<Rightarrow> None
                    | Some (s, _) \<Rightarrow>
                        Some (withStatuses statuses
                          (\<lambda>st. \<lparr> found_text = Some text, found_schema = Some s, found_status = st,
                                 found_mediaType = orElse explicitContentType (Some ''application/json''),
                                 found_headers = None \<rparr>))))
         else if callName = ''text'' then
           Some (withStatuses statuses
             (\<lambda>st. \<lparr> found_text = None, found_schema = Some stringSchema, found_status = st,
                    found_mediaType = orElse explicitContentType (Some ''text/plain''),
                    found_headers = None \<rparr>))
         else if callName = ''body'' then
           (let mediaType0 = orElse explicitContentType
                  (orElse (inferMediaTypeFromExpression c a0) (Some ''application/octet-stream''));
                (mediaType, s) =
                  (case a0 of
                     None \<Rightarrow> (mediaType0, binarySchema)
                   | Some a \<Rightarrow>
                       (let t = getTypeAtLocation c (nodeId a)
                        in if isStringType c t
                           then (orElse explicitContentType (Some ''text/plain''), stringSchema)
                           else if isBinaryLikeType c t
                           then (orElse explicitContentType
                                   (orElse mediaType0 (Some ''application/octet-stream'')), binarySchema)
                           else (mediaType0, binarySchema)))
            in Some (withStatuses statuses
                 (\<lambda>st. \<lparr> found_text = None, found_schema = Some s, found_status = st,
                        found_mediaType = mediaType, found_headers = None \<rparr>)))
         else if callName = ''html'' then
           Some (withStatuses statuses
             (\<lambda>st. \<lparr> found_text = None, found_schema = Some stringSchema, found_status = st,
                    found_mediaType = orElse explicitContentType (Some ''text/html''),
                    found_headers = None \<rparr>))
         else if callName = ''notFound'' then
           Some (map (\<lambda>st. \<lparr> found_text = None, found_schema = None, found_status = Some st,
                              found_mediaType = None, found_headers = None \<rparr>)
                  (if statuses \<noteq> [] then statuses else [404]))
         else if callName = ''redirect'' then
           (let hdrs = [(''Location'', SPrim ''string'' (Some ''uri'') False)]
            in Some (map (\<lambda>st. \<lparr> found_text = None, found_schema = None, found_status = Some st,
                                   found_mediaType = None, found_headers = Some hdrs \<rparr>)
                      (if statuses \<noteq> [] then statuses else [302])))
         else Some [])"

definition newResponseRecords :: "checker \<Rightarrow> string option \<Rightarrow> node list option \<Rightarrow> foundResponse list" where
  \<comment> \<open>the records pushed for \<^verbatim>\<open>return new Response(body, init)\<close>\<close>
  "newResponseRecords c explicitContentType arguments =
     (let a0 = (case arguments of None \<Rightarrow> None | Some as \<Rightarrow> nth_opt as 0);
          init = (case arguments of None \<Rightarrow> None | Some as \<Rightarrow> nth_opt as 1);
          mediaType = orElse (inferMediaTypeFromResponseInit c init) explicitContentType;
          statuses = extractStatusFromResponseInit c init;
          s = (case a0 of
                 None \<Rightarrow> None
               | Some a \<Rightarrow>
                   (let t = getTypeAtLocation c (nodeId a)
                    in if isStringType c t then Some stringSchema
                       else if isBinaryLikeType c t
                               \<or> orElse (inferMediaTypeFromExpression c a0) None \<noteq> None
                       then Some binarySchema
                       else None));
          codes = (if statuses \<noteq> [] then statuses else [200])
      in map (\<lambda>st. \<lparr> found_text = None, found_schema = s, found_status = Some st,
                       found_mediaType = mediaType, found_headers = None \<rparr>) codes)"

definition responsesAt ::
  "nat \<Rightarrow> checker \<Rightarrow> string option \<Rightarrow> string option \<Rightarrow> node \<Rightarrow> foundResponse list option" where
  \<comment> \<open>what the visitor of \<^verbatim>\<open>findResponses\<close> pushes at one node\<close>
  "responsesAt depth c explicitContentType paramName n =
     (case n of
        CallExpression _ expr args \<Rightarrow>
          (case expr of
             PropertyAccessExpression _ receiver callName \<Rightarrow>
               if isCtxReceiver paramName (stripParensAndCasts receiver)
               then callResponses depth c explicitContentType callName args
               else Some []
           | _ \<Rightarrow> Some [])
      | ReturnStatement _ expression \<Rightarrow>
          (case expression of
             Some e \<Rightarrow>
               (case e of
                  NewExpression _ callee arguments \<Rightarrow>
                    if getText c callee = ''Response''
                    then Some (newResponseRecords c explicitContentType arguments)
                    else Some []
                | _ \<Rightarrow> Some [])
           | None \<Rightarrow> Some [])
      | _ \<Rightarrow> Some [])"

definition pushResponses ::
  "nat \<Rightarrow> checker \<Rightarrow> string option \<Rightarrow> string option \<Rightarrow> node
     \<Rightarrow> foundResponse list option \<Rightarrow> foundResponse list option" where
  \<comment> \<open>the visitor's step on the list \<^verbatim>\<open>results\<close>; \<open>None\<close> once a synthesis has not returned\<close>
  "pushResponses depth c explicitContentType paramName n results =
     (case results of
        None \<Rightarrow> None
      | Some rs \<Rightarrow>
          (case responsesAt depth c explicitContentType paramName n of
             None \<Rightarrow> None
           | Some new \<Rightarrow> Some (rs @ new)))"

definition findResponses ::
  "nat \<Rightarrow> checker \<Rightarrow> node option \<Rightarrow> string option \<Rightarrow> foundResponse list option" where
  "findResponses depth c cb paramName =
     (case cb of
        None \<Rightarrow> Some []
      | Some body \<Rightarrow>
          (let explicitContentType = findExplicitContentType c body paramName
           in forEachChild (pushResponses depth c explicitContentType paramName) body (Some [])))"

section \<open>analyzer.ts: request data\<close>

function unwrapOptional :: "node \<Rightarrow> bool \<Rightarrow> node \<times> bool" where
  \<comment> \<open>the loop that removes chained \<^verbatim>\<open>.optional()\<close> calls\<close>
  "unwrapOptional cur optional =
     (case cur of
        CallExpression _ callee _ \<Rightarrow>
          (case callee of
             PropertyAccessExpression _ e name \<Rightarrow>
               if name = ''optional'' then unwrapOptional e True else (cur, optional)
           | _ \<Rightarrow> (cur, optional))
      | _ \<Rightarrow> (cur, optional))"
  by pat_completeness auto
termination
  by (relation "measure (\<lambda>(cur, optional). size cur)") auto

declare unwrapOptional.simps [simp del]

lemma nth_opt_in_set: "nth_opt xs i = Some x \<Longrightarrow> x \<in> set xs"
  by (auto simp: nth_opt_def split: if_splits)

lemma size_stripParensAndCasts: "size (stripParensAndCasts e) \<le> size e"
  by (induction e rule: stripParensAndCasts.induct) auto

lemma size_unwrapOptional: "size (fst (unwrapOptional cur optional)) \<le> size cur"
proof (induction cur optional rule: unwrapOptional.induct)
  case (1 cur optional)
  show ?case
  proof (cases cur)
    case (CallExpression i callee args)
    show ?thesis
    proof (cases callee)
      case (PropertyAccessExpression j e name)
      show ?thesis
      proof (cases "name = ''optional''")
        case True
        have "size (fst (unwrapOptional e True)) \<le> size e"
          using "1.IH" CallExpression PropertyAccessExpression True by simp
        then show ?thesis
          using CallExpression PropertyAccessExpression True
          by (subst unwrapOptional.simps) simp
      next
        case False
        then show ?thesis
          using CallExpression PropertyAccessExpression by (subst unwrapOptional.simps) simp
      qed
    qed (use CallExpression in \<open>subst unwrapOptional.simps, simp\<close>)+
  qed (subst unwrapOptional.simps, simp)+
qed

definition zodTarget :: "node \<Rightarrow> node" where
  \<comment> \<open>\<^verbatim>\<open>cur\<close> after the loop and \<^verbatim>\<open>unwrap\<close>\<close>
  "zodTarget expr = stripParensAndCasts (fst (unwrapOptional expr False))"

lemma size_zodTarget: "size (zodTarget expr) \<le> size expr"
  unfolding zodTarget_def
  using size_stripParensAndCasts[of "fst (unwrapOptional expr False)"] size_unwrapOptional[of expr False]
  by linarith

function zodObjectCallToSchema :: "checker \<Rightarrow> node \<Rightarrow> schema option"
  and zodTypeExprToSchema :: "checker \<Rightarrow> node \<Rightarrow> schema \<times> bool"
where
  "zodObjectCallToSchema c call =
     (case call of
        CallExpression _ _ args \<Rightarrow>
          (case nth_opt args 0 of
             None \<Rightarrow> None
           | Some arg \<Rightarrow>
               (case arg of
                  ObjectLiteralExpression _ props \<Rightarrow>
                    (let entries =
                           concat (map (\<lambda>prop.
                             case prop of
                               PropertyAssignment _ name init \<Rightarrow>
                                 (case identifierText name of
                                    None \<Rightarrow> []
                                  | Some key \<Rightarrow> [(key, zodTypeExprToSchema c init)])
                             | _ \<Rightarrow> []) props);
                         properties = fold (\<lambda>e acc. setProperty (fst e) (fst (snd e)) acc) entries [];
                         required = map fst (filter (\<lambda>e. \<not> snd (snd e)) entries)
                     in Some (SObject properties (if required \<noteq> [] then Some required else None) False))
                | _ \<Rightarrow> None))
      | _ \<Rightarrow> None)"
| "zodTypeExprToSchema c expr =
     (let optional = snd (unwrapOptional expr False);
          cur = zodTarget expr
      in case cur of
           CallExpression _ callee args \<Rightarrow>
             (case callee of
                PropertyAccessExpression _ recv name \<Rightarrow>
                  if getText c recv = ''z'' then
                    (if name = ''string'' then (SPrim ''string'' None False, optional)
                     else if name = ''number'' then (SPrim ''number'' None False, optional)
                     else if name = ''boolean'' then (SPrim ''boolean'' None False, optional)
                     else if name = ''array'' then
                       (case nth_opt args 0 of
                          None \<Rightarrow> (SArray (SEmpty False) False, optional)
                        | Some inner \<Rightarrow> (SArray (fst (zodTypeExprToSchema c inner)) False, optional))
                     else if name = ''object'' then
                       (case zodObjectCallToSchema c cur of
                          None \<Rightarrow> (SEmpty False, optional)
                        | Some s \<Rightarrow> (s, optional))
                     else (SDescription ''Unparsed Zod schema'' False, optional))
                  else (SDescription ''Unparsed Zod schema'' False, optional)
              | _ \<Rightarrow> (SDescription ''Unparsed Zod schema'' False, optional))
         | _ \<Rightarrow> (SDescription ''Unparsed Zod schema'' False, optional))"
  by pat_completeness auto
termination
proof (relation "inv_image (less_than <*lex*> less_than)
        (\<lambda>x. case x of Inl (c, call) \<Rightarrow> (size call, 0::nat) | Inr (c, expr) \<Rightarrow> (size expr, 1))",
       goal_cases)
  case 1
  show ?case by auto
next
  case (2 c cl i callee args arg j props pr k nm ini ky)
  from 2(2) have "arg \<in> set args" by (rule nth_opt_in_set)
  then have a: "size arg \<le> size_list size args" by (rule size_in_list)
  from 2(4) have b: "size pr \<le> size_list size props" by (rule size_in_list)
  have "size ini < size cl"
    using a b unfolding 2(1) 2(3) 2(5) by simp
  then show ?case by simp
next
  case (3 c expr opt cur i callee args j recv nm inner)
  from 3(10) have "inner \<in> set args" by (rule nth_opt_in_set)
  then have "size inner \<le> size_list size args" by (rule size_in_list)
  then have "size inner < size cur" unfolding 3(3) by simp
  moreover have "size cur \<le> size expr" unfolding 3(2) by (rule size_zodTarget)
  ultimately have "size inner < size expr" by linarith
  then show ?case by simp
next
  case (4 c expr opt cur i callee args j recv nm)
  have "size cur \<le> size expr" unfolding 4(2) by (rule size_zodTarget)
  then show ?case by auto
qed

declare zodObjectCallToSchema.simps [simp del]
declare zodTypeExprToSchema.simps [simp del]

definition isZodObjectCall :: "checker \<Rightarrow> node \<Rightarrow> bool" where
  "isZodObjectCall c call =
     (case call of
        CallExpression _ callee _ \<Rightarrow>
          (case callee of
             PropertyAccessExpression _ obj name \<Rightarrow>
               (getText c obj = ''z'' \<or> endsWith ''.z'' (getText c obj)) \<and> name = ''object''
           | _ \<Rightarrow> False)
      | _ \<Rightarrow> False)"

type_synonym requestState = "schema option \<times> (string \<times> schema) list \<times> string list"
  \<comment> \<open>\<^verbatim>\<open>bodySchema\<close>, \<^verbatim>\<open>queryProps\<close> and \<^verbatim>\<open>requiredQuery\<close>\<close>

definition considerTyped :: "nat \<Rightarrow> checker \<Rightarrow> nat option \<Rightarrow> schema option option" where
  \<comment> \<open>the schema of the declared type, if one is declared; \<open>None\<close> when its synthesis does not return\<close>
  "considerTyped depth c typeNode =
     (case typeNode of
        None \<Rightarrow> Some None
      | Some tn \<Rightarrow>
          (case typeToSchema depth (typeInfo c) (getTypeFromTypeNode c tn) {} of
             None \<Rightarrow> None
           | Some (s, _) \<Rightarrow> Some (Some s)))"

definition addToSet :: "string \<Rightarrow> string list \<Rightarrow> string list" where
  \<comment> \<open>\<^verbatim>\<open>required.add(k)\<close> on a \<^verbatim>\<open>Set\<close>, which keeps the order of insertion\<close>
  "addToSet k ks = (if k \<in> set ks then ks else ks @ [k])"

definition mergeQuerySchemaFromObjectSchema ::
  "(string \<times> schema) list \<Rightarrow> string list \<Rightarrow> schema \<Rightarrow> (string \<times> schema) list \<times> string list" where
  "mergeQuerySchemaFromObjectSchema props required objSchema =
     (case objSchema of
        SObject properties req _ \<Rightarrow>
          (fold (\<lambda>kv acc. setProperty (fst kv) (snd kv) acc) properties props,
           fold addToSet (case req of None \<Rightarrow> [] | Some names \<Rightarrow> names) required)
      | _ \<Rightarrow> (props, required))"

definition declaredCall :: "node \<Rightarrow> node option" where
  \<comment> \<open>the call an initializer is, directly or awaited\<close>
  "declaredCall init =
     (case init of
        AwaitExpression _ e \<Rightarrow> (case e of CallExpression _ _ _ \<Rightarrow> Some e | _ \<Rightarrow> None)
      | CallExpression _ _ _ \<Rightarrow> Some init
      | _ \<Rightarrow> None)"

definition isReqCall :: "string option \<Rightarrow> string \<Rightarrow> node \<Rightarrow> bool" where
  \<comment> \<open>a call \<^verbatim>\<open>ctx.req.name(...)\<close>\<close>
  "isReqCall paramName name call =
     (case call of
        CallExpression _ callee _ \<Rightarrow>
          (case callee of
             PropertyAccessExpression _ recv nm \<Rightarrow> nm = name \<and> isCtxMember recv paramName ''req''
           | _ \<Rightarrow> False)
      | _ \<Rightarrow> False)"

definition variableRequestData ::
  "nat \<Rightarrow> checker \<Rightarrow> string option \<Rightarrow> nat option \<Rightarrow> node \<Rightarrow> requestState \<Rightarrow> requestState option" where
  \<comment> \<open>the visitor's step at a variable declaration with the initializer \<open>initializer\<close>\<close>
  "variableRequestData depth c paramName typeNode initializer st =
     (case st of (bodySchema, queryProps, requiredQuery) \<Rightarrow>
        (let init = stripParensAndCasts initializer
         in case declaredCall init of
              None \<Rightarrow> Some st
            | Some call \<Rightarrow>
                if isReqCall paramName ''json'' call then
                  (if bodySchema \<noteq> None then Some st
                   else
                     (case considerTyped depth c typeNode of
                        None \<Rightarrow> None
                      | Some (Some s) \<Rightarrow> Some (Some s, queryProps, requiredQuery)
                      | Some None \<Rightarrow>
                          (case typeToSchema depth (typeInfo c) (getTypeAtLocation c (nodeId init)) {} of
                             None \<Rightarrow> None
                           | Some (s, _) \<Rightarrow> Some (Some s, queryProps, requiredQuery))))
                else if isReqCall paramName ''query'' call then
                  (case considerTyped depth c typeNode of
                     None \<Rightarrow> None
                   | Some None \<Rightarrow> Some st
                   | Some (Some typed) \<Rightarrow>
                       (case mergeQuerySchemaFromObjectSchema queryProps requiredQuery typed of
                          (queryProps', requiredQuery') \<Rightarrow> Some (bodySchema, queryProps', requiredQuery')))
                else Some st))"

definition parsedBodySchema :: "checker \<Rightarrow> string option \<Rightarrow> node \<Rightarrow> node list \<Rightarrow> schema option" where
  \<comment> \<open>\<^verbatim>\<open>schema.parse(await ctx.req.json())\<close> with \<^verbatim>\<open>schema\<close> initialized by \<^verbatim>\<open>z.object({...})\<close>\<close>
  "parsedBodySchema c paramName schemaExpr args =
     (case nth_opt args 0 of
        None \<Rightarrow> None
      | Some a0 \<Rightarrow>
          (case a0 of
             AwaitExpression _ innerCall \<Rightarrow>
               if isReqCall paramName ''json'' innerCall then
                 (case resolveIdentifierToInit c schemaExpr of
                    None \<Rightarrow> None
                  | Some schemaInit \<Rightarrow>
                      if isZodObjectCall c schemaInit then zodObjectCallToSchema c schemaInit else None)
               else None
           | _ \<Rightarrow> None))"

definition callRequestData ::
  "checker \<Rightarrow> string option \<Rightarrow> node \<Rightarrow> node list \<Rightarrow> requestState \<Rightarrow> requestState" where
  \<comment> \<open>the visitor's step at a call \<^verbatim>\<open>expr(...args)\<close>\<close>
  "callRequestData c paramName expr args st =
     (case expr of
        PropertyAccessExpression _ recv name \<Rightarrow>
          (case st of (bodySchema, queryProps, requiredQuery) \<Rightarrow>
             (let bodySchema' =
                    (if name = ''parse'' \<and> bodySchema = None
                     then parsedBodySchema c paramName recv args else bodySchema);
                  queryProps' =
                    (if name = ''query'' \<and> isCtxMember recv paramName ''req'' then
                       (case nth_opt args 0 of
                          None \<Rightarrow> queryProps
                        | Some a0 \<Rightarrow>
                            (case stringLiteralLike a0 of
                               None \<Rightarrow> queryProps
                             | Some k \<Rightarrow> setProperty k (SPrim ''string'' None False) queryProps))
                     else queryProps)
              in (bodySchema', queryProps', requiredQuery)))
      | _ \<Rightarrow> st)"

definition requestDataAt ::
  "nat \<Rightarrow> checker \<Rightarrow> string option \<Rightarrow> node \<Rightarrow> requestState option \<Rightarrow> requestState option" where
  \<comment> \<open>the visitor of \<^verbatim>\<open>findRequestData\<close> at one node; \<open>None\<close> once a synthesis has not returned\<close>
  "requestDataAt depth c paramName n state =
     (case state of
        None \<Rightarrow> None
      | Some st \<Rightarrow>
          (case n of
             VariableDeclaration _ _ typeNode initializer \<Rightarrow>
               (case initializer of
                  None \<Rightarrow> Some st
                | Some ini \<Rightarrow> variableRequestData depth c paramName typeNode ini st)
           | CallExpression _ expr args \<Rightarrow> Some (callRequestData c paramName expr args st)
           | _ \<Rightarrow> Some st))"

definition findRequestData ::
  "nat \<Rightarrow> checker \<Rightarrow> node option \<Rightarrow> string option \<Rightarrow> (schema option \<times> schema option) option" where
  \<comment> \<open>\<^verbatim>\<open>bodySchema\<close> and \<^verbatim>\<open>querySchema\<close>\<close>
  "findRequestData depth c cb paramName =
     (case cb of
        None \<Rightarrow> Some (None, None)
      | Some body \<Rightarrow>
          (case forEachChild (requestDataAt depth c paramName) body (Some (None, [], [])) of
             None \<Rightarrow> None
           | Some (bodySchema, queryProps, requiredQuery) \<Rightarrow>
               Some (bodySchema,
                     if queryProps \<noteq> [] then Some (SObject queryProps (Some requiredQuery) False) else None)))"

section \<open>analyzer.ts: the routes of a source file\<close>

function extractPathParams :: "string \<Rightarrow> string list" where
  \<comment> \<open>the matches of \<^verbatim>\<open>/:([A-Za-z0-9_]+)/g\<close>\<close>
  "extractPathParams [] = []"
| "extractPathParams (ch # cs) =
     (if ch = CHR '':'' \<and> takeWhile isWordChar cs \<noteq> []
      then takeWhile isWordChar cs # extractPathParams (dropWhile isWordChar cs)
      else extractPathParams cs)"
  by pat_completeness auto
termination
  by (relation "measure length") (auto simp: le_imp_less_Suc length_dropWhile_le)

definition handlerOf :: "node \<Rightarrow> node option" where
  \<comment> \<open>the second argument of the registration\<close>
  "handlerOf n = (case n of CallExpression _ _ args \<Rightarrow> nth_opt args 1 | _ \<Rightarrow> None)"

definition firstParameterName :: "node list \<Rightarrow> string option" where
  \<comment> \<open>the name of the first parameter when it is an identifier\<close>
  "firstParameterName params =
     (case params of
        [] \<Rightarrow> None
      | p # _ \<Rightarrow> (case p of Parameter _ name _ \<Rightarrow> identifierText name | _ \<Rightarrow> None))"

definition handlerBody :: "node option \<Rightarrow> node option \<times> string option" where
  \<comment> \<open>\<^verbatim>\<open>bodyNode\<close> and \<^verbatim>\<open>paramName\<close>\<close>
  "handlerBody handler =
     (case handler of
        None \<Rightarrow> (None, None)
      | Some h \<Rightarrow>
          (case h of
             ArrowFunction _ params body \<Rightarrow> (Some body, firstParameterName params)
           | FunctionExpression _ params body \<Rightarrow> (Some body, firstParameterName params)
           | _ \<Rightarrow> (None, None)))"

definition toResponseItem :: "foundResponse \<Rightarrow> responseItem" where
  \<comment> \<open>\<^verbatim>\<open>{ status: f.status ?? 200, schema: f.schema, mediaType: f.mediaType, headers: f.headers }\<close>\<close>
  "toResponseItem f =
     \<lparr> status = (case found_status f of None \<Rightarrow> 200 | Some s \<Rightarrow> s),
       schema = found_schema f, mediaType = found_mediaType f, headers = found_headers f \<rparr>"

definition routeInfoAt :: "nat \<Rightarrow> checker \<Rightarrow> node \<Rightarrow> string \<times> string \<Rightarrow> RouteInfo option" where
  \<comment> \<open>the record pushed for a registration; \<open>None\<close> when a synthesis does not return\<close>
  "routeInfoAt depth c n route =
     (case handlerBody (handlerOf n) of (bodyNode, paramName) \<Rightarrow>
        (case findResponses depth c bodyNode paramName of
           None \<Rightarrow> None
         | Some foundList \<Rightarrow>
             (case findRequestData depth c bodyNode paramName of
                None \<Rightarrow> None
              | Some (bodySchema, queryParams) \<Rightarrow>
                  Some \<lparr> method' = fst route,
                         path = snd route,
                         responseTypeText = (case foundList of [] \<Rightarrow> None | first # _ \<Rightarrow> found_text first),
                         responseSchema = (case foundList of [] \<Rightarrow> None | first # _ \<Rightarrow> found_schema first),
                         requestBodySchema = bodySchema,
                         querySchema = queryParams,
                         pathParams = Some (extractPathParams (snd route)),
                         responses = Some (map toResponseItem foundList),
                         middlewareScopes = None \<rparr>)))"

definition pushRoute :: "nat \<Rightarrow> checker \<Rightarrow> node \<Rightarrow> RouteInfo list option \<Rightarrow> RouteInfo list option" where
  \<comment> \<open>the visitor of \<^verbatim>\<open>analyzeSource\<close> at one node\<close>
  "pushRoute depth c n routes =
     (case routes of
        None \<Rightarrow> None
      | Some rs \<Rightarrow>
          (case isHonoRouteCall n of
             None \<Rightarrow> Some rs
           | Some route \<Rightarrow>
               (case routeInfoAt depth c n route of
                  None \<Rightarrow> None
                | Some r \<Rightarrow> Some (rs @ [r]))))"

definition analyzeSource :: "nat \<Rightarrow> checker \<Rightarrow> node \<Rightarrow> RouteInfo list option" where
  \<comment> \<open>the first argument bounds the depth of every type synthesis; \<open>None\<close> when one of them
      does not return within it\<close>
  "analyzeSource depth c sourceFile = visitWith (pushRoute depth c) sourceFile (Some [])"

section \<open>Small programs\<close>

definition plainChecker :: checker where
  "plainChecker =
     \<lparr> typeInfo = (\<lambda>t. plainType), getTypeAtLocation = (\<lambda>n. 0), getTypeFromTypeNode = (\<lambda>n. 0),
       nodeSymbol = [], getSymbolAtLocation = (\<lambda>n. None), sourceText = (\<lambda>n. []) \<rparr>"

definition ctxCall :: "nat \<Rightarrow> string \<Rightarrow> string \<Rightarrow> node list \<Rightarrow> node" where
  \<comment> \<open>the call \<^verbatim>\<open>ctx.name(...args)\<close>; its nodes are numbered from \<open>i\<close>\<close>
  "ctxCall i ctx name args = CallExpression i (PropertyAccessExpression (i + 1) (Identifier (i + 2) ctx) name) args"

definition pingTypes :: typeTable where
  \<comment> \<open>type 1 is \<^verbatim>\<open>{ ok: boolean }\<close>; type 2 is \<^verbatim>\<open>boolean\<close>, which the checker holds as the union
      of \<^verbatim>\<open>false\<close> (type 3) and \<^verbatim>\<open>true\<close> (type 4); type 0 is \<^verbatim>\<open>any\<close>\<close>
  "pingTypes t =
     (if t = 1 then plainType \<lparr> flagObject := True, propertiesOfType := [(''ok'', False, 2)],
                      typeString := ''{ ok: boolean; }'' \<rparr>
      else if t = 2 then plainType \<lparr> unionTypes := Some [3, 4], flagBoolean := True,
                           typeString := ''boolean'' \<rparr>
      else if t = 3 then plainType \<lparr> flagBoolean := True, typeString := ''false'' \<rparr>
      else if t = 4 then plainType \<lparr> flagBoolean := True, typeString := ''true'' \<rparr>
      else plainType \<lparr> typeString := ''any'' \<rparr>)"

definition pingChecker :: checker where
  \<comment> \<open>the object literal (node 13) has the type \<^verbatim>\<open>{ ok: boolean }\<close>\<close>
  "pingChecker = plainChecker \<lparr> typeInfo := pingTypes, getTypeAtLocation := (\<lambda>n. if n = 13 then 1 else 0) \<rparr>"

definition pingCall :: node where
  \<comment> \<open>\<^verbatim>\<open>app.get('/ping', (c) => { return c.json({ ok: true }) })\<close>\<close>
  "pingCall =
     CallExpression 2 (PropertyAccessExpression 3 (Identifier 4 ''app'') ''get'')
       [StringLiteral 5 ''/ping'',
        ArrowFunction 6 [Parameter 7 (Identifier 8 ''c'') None]
          (OtherNode 9 [ReturnStatement 10 (Some (ctxCall 11 ''c'' ''json''
             [ObjectLiteralExpression 13 [PropertyAssignment 14 (Identifier 15 ''ok'') (OtherNode 16 [])]]))])]"

definition itemsCall :: node where
  \<comment> \<open>\<^verbatim>\<open>router.post(`/items/:id`, function (ctx) { ctx.text('made', 201); return ctx.notFound() })\<close>\<close>
  "itemsCall =
     CallExpression 21 (PropertyAccessExpression 22 (Identifier 23 ''router'') ''post'')
       [NoSubstitutionTemplateLiteral 24 ''/items/:id'',
        FunctionExpression 25 [Parameter 26 (Identifier 27 ''ctx'') None]
          (OtherNode 28
            [OtherNode 29 [ctxCall 30 ''ctx'' ''text'' [StringLiteral 33 ''made'', NumericLiteral 34 201]],
             ReturnStatement 35 (Some (ctxCall 36 ''ctx'' ''notFound'' []))])]"

definition routesFile :: node where
  \<comment> \<open>a source file with the two registrations and \<^verbatim>\<open>app.use('/y', mw)\<close>\<close>
  "routesFile =
     OtherNode 0
       [OtherNode 1 [pingCall],
        OtherNode 20 [itemsCall],
        OtherNode 40 [CallExpression 41 (PropertyAccessExpression 42 (Identifier 43 ''app'') ''use'')
                        [StringLiteral 44 ''/y'', Identifier 45 ''mw'']]]"

definition csvBody :: node where
  \<comment> \<open>\<^verbatim>\<open>{ c.header('content-type', 'text/csv'); c.text('a,b'); c.notFound();
        c.header('Content-Type', 'text/html'); return c.html('<p>') }\<close>\<close>
  "csvBody =
     OtherNode 50
       [OtherNode 51 [ctxCall 52 ''c'' ''header'' [StringLiteral 55 ''content-type'', StringLiteral 56 ''text/csv'']],
        OtherNode 57 [ctxCall 58 ''c'' ''text'' [StringLiteral 61 ''a,b'']],
        OtherNode 62 [ctxCall 63 ''c'' ''notFound'' []],
        OtherNode 66 [ctxCall 67 ''c'' ''header'' [StringLiteral 70 ''Content-Type'', StringLiteral 71 ''text/html'']],
        ReturnStatement 72 (Some (ctxCall 73 ''c'' ''html'' [StringLiteral 76 ''<p>'']))]"

definition statusTypes :: typeTable where
  \<comment> \<open>type 1 is \<^verbatim>\<open>400 | 422\<close>, types 2 and 3 are its members, every other type is \<^verbatim>\<open>string\<close>\<close>
  "statusTypes t =
     (if t = 1 then plainType \<lparr> unionTypes := Some [2, 3], typeString := ''400 | 422'' \<rparr>
      else if t = 2 then plainType \<lparr> flagNumber := True, flagNumberLiteral := True, typeString := ''400'',
                           literalNumber := Some 400 \<rparr>
      else if t = 3 then plainType \<lparr> flagNumber := True, flagNumberLiteral := True, typeString := ''422'',
                           literalNumber := Some 422 \<rparr>
      else plainType \<lparr> flagString := True, typeString := ''string'' \<rparr>)"

definition statusChecker :: checker where
  \<comment> \<open>the identifier \<^verbatim>\<open>status\<close> (node 91) has the type \<^verbatim>\<open>400 | 422\<close>\<close>
  "statusChecker = plainChecker \<lparr> typeInfo := statusTypes, getTypeAtLocation := (\<lambda>n. if n = 91 then 1 else 0) \<rparr>"

definition statusJsonCall :: node where
  \<comment> \<open>\<^verbatim>\<open>c.json(message, status)\<close>\<close>
  "statusJsonCall = ctxCall 87 ''c'' ''json'' [Identifier 90 ''message'', Identifier 91 ''status'']"

definition conciseFile :: node where
  \<comment> \<open>\<^verbatim>\<open>app.get('/x', (c) => c.json(message, status))\<close>\<close>
  "conciseFile =
     OtherNode 80
       [OtherNode 81
          [CallExpression 82 (PropertyAccessExpression 83 (Identifier 84 ''app'') ''get'')
             [StringLiteral 85 ''/x'',
              ArrowFunction 86 [Parameter 92 (Identifier 93 ''c'') None] statusJsonCall]]]"

definition blockFile :: node where
  \<comment> \<open>\<^verbatim>\<open>app.get('/x', (c) => { return c.json(message, status) })\<close>\<close>
  "blockFile =
     OtherNode 80
       [OtherNode 81
          [CallExpression 82 (PropertyAccessExpression 83 (Identifier 84 ''app'') ''get'')
             [StringLiteral 85 ''/x'',
              ArrowFunction 86 [Parameter 92 (Identifier 93 ''c'') None]
                (OtherNode 94 [ReturnStatement 95 (Some statusJsonCall)])]]]"

definition twoStatusFile :: node where
  \<comment> \<open>\<^verbatim>\<open>app.post('/u', (c) => { if (ok) { return c.json(user, 200) } return c.json(err, 422) })\<close>\<close>
  "twoStatusFile =
     OtherNode 100
       [OtherNode 101
          [CallExpression 102 (PropertyAccessExpression 103 (Identifier 104 ''app'') ''post'')
             [StringLiteral 105 ''/u'',
              ArrowFunction 106 [Parameter 107 (Identifier 108 ''c'') None]
                (OtherNode 109
                  [OtherNode 110
                     [Identifier 111 ''ok'',
                      OtherNode 112 [ReturnStatement 113 (Some (ctxCall 114 ''c'' ''json''
                        [Identifier 117 ''user'', NumericLiteral 118 200]))]],
                   ReturnStatement 119 (Some (ctxCall 120 ''c'' ''json''
                     [Identifier 123 ''err'', NumericLiteral 124 422]))])]]]"

definition pingRoute :: RouteInfo where
  \<comment> \<open>the record of the first registration of \<^const>\<open>routesFile\<close>\<close>
  "pingRoute =
     \<lparr> method' = ''get'', path = ''/ping'', responseTypeText = Some ''{ ok: boolean; }'',
       responseSchema = Some (SObject [(''ok'', SAnyOf [SPrim ''boolean'' None False] False)] (Some [''ok'']) False),
       requestBodySchema = None, querySchema = None, pathParams = Some [],
       responses = Some [\<lparr> status = 200,
           schema = Some (SObject [(''ok'', SAnyOf [SPrim ''boolean'' None False] False)] (Some [''ok'']) False),
           mediaType = Some ''application/json'', headers = None \<rparr>],
       middlewareScopes = None \<rparr>"

definition itemsRoute :: RouteInfo where
  \<comment> \<open>the record of the second registration of \<^const>\<open>routesFile\<close>\<close>
  "itemsRoute =
     \<lparr> method' = ''post'', path = ''/items/:id'', responseTypeText = None,
       responseSchema = Some (SPrim ''string'' None False),
       requestBodySchema = None, querySchema = None, pathParams = Some [''id''],
       responses = Some [\<lparr> status = 201, schema = Some (SPrim ''string'' None False),
                           mediaType = Some ''text/plain'', headers = None \<rparr>,
                         \<lparr> status = 404, schema = None, mediaType = None, headers = None \<rparr>],
       middlewareScopes = None \<rparr>"

text \<open>The records \<^verbatim>\<open>findResponses\<close> returns for \<^const>\<open>csvBody\<close>.\<close>

definition csvTextRecord :: foundResponse where
  "csvTextRecord = \<lparr> found_text = None, found_schema = Some (SPrim ''string'' None False),
     found_status = None, found_mediaType = Some ''text/html'', found_headers = None \<rparr>"

definition csvNotFoundRecord :: foundResponse where
  "csvNotFoundRecord = \<lparr> found_text = None, found_schema = None, found_status = Some 404,
     found_mediaType = None, found_headers = None \<rparr>"

definition conciseRoute :: RouteInfo where
  \<comment> \<open>the record \<^verbatim>\<open>analyzeSource\<close> returns for \<^const>\<open>conciseFile\<close>\<close>
  "conciseRoute =
     \<lparr> method' = ''get'', path = ''/x'', responseTypeText = None, responseSchema = None,
       requestBodySchema = None, querySchema = None, pathParams = Some [], responses = Some [],
       middlewareScopes = None \<rparr>"

text \<open>Handlers that answer with several statuses.\<close>

definition handlerFile :: "string \<Rightarrow> node list \<Rightarrow> node" where
  \<comment> \<open>\<^verbatim>\<open>app.get(path, (c) => { ...statements })\<close>\<close>
  "handlerFile p statements =
     OtherNode 200
       [OtherNode 201
          [CallExpression 202 (PropertyAccessExpression 203 (Identifier 204 ''app'') ''get'')
             [StringLiteral 205 p,
              ArrowFunction 206 [Parameter 207 (Identifier 208 ''c'') None] (OtherNode 209 statements)]]]"

definition returnCall :: "nat \<Rightarrow> string \<Rightarrow> string \<Rightarrow> int \<Rightarrow> node" where
  \<comment> \<open>\<^verbatim>\<open>return c.name(value, status)\<close>; its nodes are numbered from \<open>i\<close>\<close>
  "returnCall i name v st =
     ReturnStatement i (Some (ctxCall (i + 1) ''c'' name [Identifier (i + 4) v, NumericLiteral (i + 5) st]))"

definition collidingFile :: node where
  \<comment> \<open>\<^verbatim>\<open>app.get('/u', (c) => { if (a) return c.json(user, 200); if (b) return c.json(err, 422); return c.text(msg, 200) })\<close>\<close>
  "collidingFile =
     handlerFile ''/u''
       [OtherNode 210 [Identifier 211 ''a'', returnCall 220 ''json'' ''user'' 200],
        OtherNode 212 [Identifier 213 ''b'', returnCall 230 ''json'' ''err'' 422],
        returnCall 240 ''text'' ''msg'' 200]"

definition jsonItem :: "int \<Rightarrow> responseItem" where
  "jsonItem st = \<lparr> status = st, schema = Some (SPrim ''string'' None False),
     mediaType = Some ''application/json'', headers = None \<rparr>"

definition htmlItem :: "int \<Rightarrow> responseItem" where
  "htmlItem st = \<lparr> status = st, schema = Some (SPrim ''string'' None False),
     mediaType = Some ''text/html'', headers = None \<rparr>"

definition textItem :: "int \<Rightarrow> responseItem" where
  "textItem st = \<lparr> status = st, schema = Some (SPrim ''string'' None False),
     mediaType = Some ''text/plain'', headers = None \<rparr>"

definition collidingRoute :: RouteInfo where
  \<comment> \<open>the record \<^verbatim>\<open>analyzeSource\<close> returns for \<^const>\<open>collidingFile\<close>\<close>
  "collidingRoute =
     \<lparr> method' = ''get'', path = ''/u'', responseTypeText = Some ''string'',
       responseSchema = Some (SPrim ''string'' None False),
       requestBodySchema = None, querySchema = None, pathParams = Some [],
       responses = Some [jsonItem 200, jsonItem 422, textItem 200],
       middlewareScopes = None \<rparr>"

definition zeroStatusFile :: node where
  \<comment> \<open>\<^verbatim>\<open>app.get('/z', (c) => { if (a) return c.json(user, 200); if (b) return c.html(page, 200); return c.text(msg, 0) })\<close>\<close>
  "zeroStatusFile =
     handlerFile ''/z''
       [OtherNode 210 [Identifier 211 ''a'', returnCall 220 ''json'' ''user'' 200],
        OtherNode 212 [Identifier 213 ''b'', returnCall 230 ''html'' ''page'' 200],
        returnCall 240 ''text'' ''msg'' 0]"

definition zeroStatusRoute :: RouteInfo where
  \<comment> \<open>the record \<^verbatim>\<open>analyzeSource\<close> returns for \<^const>\<open>zeroStatusFile\<close>\<close>
  "zeroStatusRoute =
     \<lparr> method' = ''get'', path = ''/z'', responseTypeText = Some ''string'',
       responseSchema = Some (SPrim ''string'' None False),
       requestBodySchema = None, querySchema = None, pathParams = Some [],
       responses = Some [jsonItem 200, htmlItem 200, textItem 0],
       middlewareScopes = None \<rparr>"

text \<open>A handler that answers with a value of a recursive array type.\<close>

definition jsonChecker :: checker where
  \<comment> \<open>the identifier \<^verbatim>\<open>j\<close> (node 314) is declared \<^verbatim>\<open>j: Json[]\<close>, with \<^verbatim>\<open>type Json = string | Json[]\<close>\<close>
  "jsonChecker = plainChecker \<lparr> typeInfo := jsonTypes, getTypeAtLocation := (\<lambda>n. if n = 314 then 2 else 1) \<rparr>"

definition jsonCall :: node where
  \<comment> \<open>\<^verbatim>\<open>app.get('/j', (c) => { return c.json(j) })\<close>\<close>
  "jsonCall =
     CallExpression 302 (PropertyAccessExpression 303 (Identifier 304 ''app'') ''get'')
       [StringLiteral 305 ''/j'',
        ArrowFunction 306 [Parameter 307 (Identifier 308 ''c'') None]
          (OtherNode 309 [ReturnStatement 310 (Some (ctxCall 311 ''c'' ''json'' [Identifier 314 ''j'']))])]"

definition jsonFile :: node where
  "jsonFile = OtherNode 300 [OtherNode 301 [jsonCall]]"

text \<open>Handlers whose calls leave the status open.\<close>

definition numberTypes :: typeTable where
  \<comment> \<open>type 1 is \<^verbatim>\<open>number\<close>, every other type is \<^verbatim>\<open>string\<close>\<close>
  "numberTypes t =
     (if t = 1 then plainType \<lparr> flagNumber := True, typeString := ''number'' \<rparr>
      else plainType \<lparr> flagString := True, typeString := ''string'' \<rparr>)"

definition codeChecker :: checker where
  \<comment> \<open>the identifier \<^verbatim>\<open>code\<close> (node 225) is declared \<^verbatim>\<open>code: number\<close>\<close>
  "codeChecker = plainChecker \<lparr> typeInfo := numberTypes, getTypeAtLocation := (\<lambda>n. if n = 225 then 1 else 0) \<rparr>"

definition defaultsFile :: node where
  \<comment> \<open>\<^verbatim>\<open>app.get('/d', (c) => { if (a) return c.json(x, code); if (b) return c.text('hi');
        if (d) return c.notFound(); if (e) return c.redirect('/x'); return new Response('bye') })\<close>\<close>
  "defaultsFile =
     handlerFile ''/d''
       [OtherNode 210 [Identifier 211 ''a'',
          ReturnStatement 220 (Some (ctxCall 221 ''c'' ''json'' [Identifier 224 ''x'', Identifier 225 ''code'']))],
        OtherNode 212 [Identifier 213 ''b'',
          ReturnStatement 230 (Some (ctxCall 231 ''c'' ''text'' [StringLiteral 234 ''hi'']))],
        OtherNode 214 [Identifier 215 ''d'',
          ReturnStatement 240 (Some (ctxCall 241 ''c'' ''notFound'' []))],
        OtherNode 216 [Identifier 217 ''e'',
          ReturnStatement 250 (Some (ctxCall 251 ''c'' ''redirect'' [StringLiteral 254 ''/x'']))],
        ReturnStatement 260 (Some (NewExpression 261 (Identifier 262 ''Response'') (Some [StringLiteral 263 ''bye''])))]"

definition redirectFile :: node where
  \<comment> \<open>\<^verbatim>\<open>app.get('/r', (c) => { if (a) return c.json(x, code); return c.redirect('/login', code) })\<close>\<close>
  "redirectFile =
     handlerFile ''/r''
       [OtherNode 210 [Identifier 211 ''a'',
          ReturnStatement 220 (Some (ctxCall 221 ''c'' ''json'' [Identifier 224 ''x'', Identifier 225 ''code'']))],
        ReturnStatement 230 (Some (ctxCall 231 ''c'' ''redirect'' [StringLiteral 234 ''/login'', Identifier 225 ''code'']))]"

definition locationHeaders :: headerMap where
  "locationHeaders = [(''Location'', SPrim ''string'' (Some ''uri'') False)]"

definition defaultsRoute :: RouteInfo where
  \<comment> \<open>the record \<^verbatim>\<open>analyzeSource\<close> returns for \<^const>\<open>defaultsFile\<close>\<close>
  "defaultsRoute =
     \<lparr> method' = ''get'', path = ''/d'', responseTypeText = Some ''string'',
       responseSchema = Some (SPrim ''string'' None False),
       requestBodySchema = None, querySchema = None, pathParams = Some [],
       responses = Some
         [jsonItem 200, textItem 200,
          \<lparr> status = 404, schema = None, mediaType = None, headers = None \<rparr>,
          \<lparr> status = 302, schema = None, mediaType = None, headers = Some locationHeaders \<rparr>,
          \<lparr> status = 200, schema = Some (SPrim ''string'' None False), mediaType = None, headers = None \<rparr>],
       middlewareScopes = None \<rparr>"

definition redirectRoute :: RouteInfo where
  \<comment> \<open>the record \<^verbatim>\<open>analyzeSource\<close> returns for \<^const>\<open>redirectFile\<close>\<close>
  "redirectRoute =
     \<lparr> method' = ''get'', path = ''/r'', responseTypeText = Some ''string'',
       responseSchema = Some (SPrim ''string'' None False),
       requestBodySchema = None, querySchema = None, pathParams = Some [],
       responses = Some
         [jsonItem 200,
          \<lparr> status = 302, schema = None, mediaType = None, headers = Some locationHeaders \<rparr>],
       middlewareScopes = None \<rparr>"

definition defaultsJsonRecord :: foundResponse where
  "defaultsJsonRecord = \<lparr> found_text = Some ''string'', found_schema = Some (SPrim ''string'' None False),
     found_status = None, found_mediaType = Some ''application/json'', found_headers = None \<rparr>"

definition defaultsRedirectRecord :: foundResponse where
  "defaultsRedirectRecord = \<lparr> found_text = None, found_schema = None, found_status = Some 302,
     found_mediaType = None, found_headers = Some locationHeaders \<rparr>"

text \<open>Bodies whose header call is not made on the bare context parameter.\<close>

definition castBody :: node where
  \<comment> \<open>\<^verbatim>\<open>{ (c as any).header('content-type', 'text/csv'); return (c as any).text('a,b') }\<close>\<close>
  "castBody =
     OtherNode 400
       [OtherNode 401
          [CallExpression 402
             (PropertyAccessExpression 403 (ParenthesizedExpression 404 (AsExpression 405 (Identifier 406 ''c''))) ''header'')
             [StringLiteral 407 ''content-type'', StringLiteral 408 ''text/csv'']],
        ReturnStatement 409
          (Some (CallExpression 410
             (PropertyAccessExpression 411 (ParenthesizedExpression 412 (AsExpression 413 (Identifier 414 ''c''))) ''text'')
             [StringLiteral 415 ''a,b'']))]"

definition otherReceiverBody :: node where
  \<comment> \<open>\<^verbatim>\<open>{ res.header('content-type', 'text/csv'); return ctx.text('a,b') }\<close>\<close>
  "otherReceiverBody =
     OtherNode 420
       [OtherNode 421 [ctxCall 422 ''res'' ''header'' [StringLiteral 425 ''content-type'', StringLiteral 426 ''text/csv'']],
        ReturnStatement 427 (Some (ctxCall 428 ''ctx'' ''text'' [StringLiteral 431 ''a,b'']))]"

section \<open>Facts about splitting, joining and relative paths\<close>

lemma split_on_not_Nil: "split_on c s \<noteq> []"
  by (induction s) (auto split: list.splits)

lemma split_on_no_sep: "c \<notin> set s \<Longrightarrow> split_on c s = [s]"
  by (induction s) auto

lemma split_on_append_sep: "c \<notin> set x \<Longrightarrow> split_on c (x @ c # rest) = x # split_on c rest"
  by (induction x) auto

lemma split_on_join:
  "segs \<noteq> [] \<Longrightarrow> \<forall>s\<in>set segs. c \<notin> set s \<Longrightarrow> split_on c (join [c] segs) = segs"
proof (induction "[c]" segs rule: join.induct)
  case 1
  then show ?case by simp
next
  case (2 x)
  then show ?case by (simp add: split_on_no_sep)
next
  case (3 x y ys)
  then show ?case by (simp add: split_on_append_sep)
qed

lemma normalizeString_valid:
  "\<forall>s\<in>set ss. validSegment s \<Longrightarrow> normalizeString b acc ss = acc @ ss"
  by (induction ss arbitrary: acc) (auto simp: validSegment_def)

lemma path_segments_abs:
  assumes "\<forall>s\<in>set segs. validSegment s"
  shows "path_segments (CHR ''/'' # join ''/'' segs) = segs"
proof (cases "segs = []")
  case True
  then show ?thesis by (simp add: path_segments_def)
next
  case False
  have "\<forall>s\<in>set segs. CHR ''/'' \<notin> set s" using assms by (auto simp: validSegment_def)
  then have "split_on CHR ''/'' (join ''/'' segs) = segs"
    using False split_on_join[of segs "CHR ''/''"] by simp
  then show ?thesis using assms by (simp add: path_segments_def normalizeString_valid)
qed

lemma strip_common_Nil: "strip_common [] ys = ([], ys)"
  by (cases ys) simp_all

lemma strip_common_append: "strip_common xs (xs @ ys) = ([], ys)"
  by (induction xs) (simp_all add: strip_common_Nil)

lemma path_relative_under:
  assumes "\<forall>s\<in>set (rs @ ts). validSegment s"
  shows "path_relative (CHR ''/'' # join ''/'' rs) (CHR ''/'' # join ''/'' (rs @ ts)) = join ''/'' ts"
proof -
  have "path_segments (CHR ''/'' # join ''/'' rs) = rs"
    using assms by (intro path_segments_abs) auto
  moreover have "path_segments (CHR ''/'' # join ''/'' (rs @ ts)) = rs @ ts"
    using assms by (intro path_segments_abs) auto
  ultimately show ?thesis
    by (simp add: path_relative_def strip_common_append)
qed

lemma nonEmpty_valid: "\<forall>s\<in>set xs. s \<noteq> [] \<Longrightarrow> nonEmpty xs = xs"
  by (induction xs) (auto simp: nonEmpty_def)

lemma strip_ext_not_Nil: "b \<noteq> [] \<Longrightarrow> strip_ext b \<noteq> []"
  by (auto simp: strip_ext_def Let_def)

lemma convertSegment_not_Nil: "s \<noteq> [] \<Longrightarrow> convertSegment s \<noteq> []"
  by (auto simp: convertSegment_def Let_def)

lemma startsWith_join:
  assumes "validSegment d"
  shows "startsWith ''..'' (join ''/'' (d # rest)) = startsWith ''..'' d"
proof (cases rest)
  case Nil
  then show ?thesis by simp
next
  case (Cons y ys)
  obtain a as where d: "d = a # as" using assms by (cases d) (auto simp: validSegment_def)
  show ?thesis
  proof (cases as)
    case Nil
    then show ?thesis using d Cons assms by (auto simp: startsWith_def validSegment_def)
  next
    case (Cons b bs)
    then show ?thesis using d \<open>rest = y # ys\<close> by (simp add: startsWith_def)
  qed
qed

lemma path_dir_join:
  assumes "\<forall>s\<in>set (ds @ [f]). validSegment s"
  shows "nonEmpty (split_on CHR ''/'' (path_dir (join ''/'' (ds @ [f])))) = ds"
proof -
  have ns: "\<forall>s\<in>set (ds @ [f]). CHR ''/'' \<notin> set s" using assms by (auto simp: validSegment_def)
  then have "split_on CHR ''/'' (join ''/'' (ds @ [f])) = ds @ [f]"
    using split_on_join[of "ds @ [f]" "CHR ''/''"] by simp
  then have pd: "path_dir (join ''/'' (ds @ [f])) = join ''/'' ds"
    by (simp add: path_dir_def)
  show ?thesis
  proof (cases "ds = []")
    case True
    then show ?thesis using pd by (simp add: nonEmpty_def)
  next
    case False
    have "\<forall>s\<in>set ds. CHR ''/'' \<notin> set s" using ns by auto
    then have "split_on CHR ''/'' (join ''/'' ds) = ds"
      using False split_on_join[of ds "CHR ''/''"] by simp
    moreover have "\<forall>s\<in>set ds. s \<noteq> []" using assms by (auto simp: validSegment_def)
    ultimately show ?thesis using pd by (simp add: nonEmpty_valid)
  qed
qed

lemma path_name_join:
  assumes "\<forall>s\<in>set (ds @ [f]). validSegment s"
  shows "path_name (join ''/'' (ds @ [f])) = strip_ext f"
proof -
  have "\<forall>s\<in>set (ds @ [f]). CHR ''/'' \<notin> set s" using assms by (auto simp: validSegment_def)
  then have "split_on CHR ''/'' (join ''/'' (ds @ [f])) = ds @ [f]"
    using split_on_join[of "ds @ [f]" "CHR ''/''"] by simp
  then show ?thesis by (simp add: path_name_def path_base_def)
qed

section \<open>Facts about the synthesizer\<close>

lemma jsonTypes_0: "unionTypes (jsonTypes 0) = Some [1, 2]"
  by (simp add: jsonTypes_def plainType_def)

lemma jsonTypes_1: "unionTypes (jsonTypes (Suc 0)) = None" "flagString (jsonTypes (Suc 0))"
  "\<not> flagNullish (jsonTypes (Suc 0))"
  by (simp_all add: jsonTypes_def plainType_def)

lemma jsonTypes_2: "unionTypes (jsonTypes 2) = None" "\<not> flagString (jsonTypes 2)"
  "\<not> flagNumber (jsonTypes 2)" "\<not> flagBoolean (jsonTypes 2)" "numberIndexType (jsonTypes 2) = Some 0"
  "\<not> flagNullish (jsonTypes 2)"
  by (simp_all add: jsonTypes_def plainType_def)

lemma typeToSchema_json_aux:
  "typeToSchema n jsonTypes 0 seen = None \<and> typeToSchema n jsonTypes 2 seen = None"
proof (induction n arbitrary: seen)
  case 0
  then show ?case by simp
next
  case (Suc n)
  have two: "typeToSchema (Suc n) jsonTypes 2 seen = None"
    using Suc by (simp add: jsonTypes_2)
  have "typeToSchemaEach n jsonTypes [1, 2] seen = None"
    using Suc by (simp split: option.splits)
  then have "typeToSchema (Suc n) jsonTypes 0 seen = None"
    by (simp add: jsonTypes_0 jsonTypes_1 jsonTypes_2 Let_def)
  with two show ?case by simp
qed

lemma uniqueByKey_invariant:
  "set seenKeys = JSON_stringify ` set uniq \<Longrightarrow> distinct (map JSON_stringify uniq) \<Longrightarrow>
   distinct (map JSON_stringify (uniqueByKey ss seenKeys uniq)) \<and>
   JSON_stringify ` set (uniqueByKey ss seenKeys uniq) = JSON_stringify ` (set uniq \<union> set ss) \<and>
   set (uniqueByKey ss seenKeys uniq) \<subseteq> set uniq \<union> set ss"
proof (induction ss arbitrary: seenKeys uniq)
  case Nil
  then show ?case by simp
next
  case (Cons s ss)
  show ?case
  proof (cases "JSON_stringify s \<in> set seenKeys")
    case True
    have step: "uniqueByKey (s # ss) seenKeys uniq = uniqueByKey ss seenKeys uniq"
      using True by simp
    have "JSON_stringify ` (set uniq \<union> set ss) = JSON_stringify ` (set uniq \<union> set (s # ss))"
      using True Cons.prems(1) by auto
    then show ?thesis
      unfolding step using Cons.IH[OF Cons.prems] by auto
  next
    case False
    have step: "uniqueByKey (s # ss) seenKeys uniq =
        uniqueByKey ss (JSON_stringify s # seenKeys) (uniq @ [s])"
      using False by simp
    have p1: "set (JSON_stringify s # seenKeys) = JSON_stringify ` set (uniq @ [s])"
      using Cons.prems(1) by auto
    have p2: "distinct (map JSON_stringify (uniq @ [s]))"
      using Cons.prems False by auto
    show ?thesis
      unfolding step using Cons.IH[OF p1 p2] by auto
  qed
qed

lemma uniqueByKey_deduplicates:
  "distinct (map JSON_stringify (uniqueByKey ss [] [])) \<and>
   JSON_stringify ` set (uniqueByKey ss [] []) = JSON_stringify ` set ss \<and>
   set (uniqueByKey ss [] []) \<subseteq> set ss"
  using uniqueByKey_invariant[of "[]" "[]" ss] by simp


lemma typeToSchemaEach_members:
  "typeToSchemaEach depth checker ts seen = Some (vs, seen') \<Longrightarrow>
   length vs = length ts \<and>
   (\<exists>sets. length sets = Suc (length ts) \<and> sets ! 0 = seen \<and> sets ! length ts = seen' \<and>
      (\<forall>i<length ts. typeToSchema depth checker (ts ! i) (sets ! i) = Some (vs ! i, sets ! Suc i)))"
proof (induction ts arbitrary: seen vs)
  case Nil
  then have "vs = []" "seen' = seen" by simp_all
  then show ?case by (auto intro: exI[of _ "[seen]"])
next
  case (Cons t ts)
  from Cons.prems obtain s seen1 ss where
    a: "typeToSchema depth checker t seen = Some (s, seen1)"
    and b: "typeToSchemaEach depth checker ts seen1 = Some (ss, seen')"
    and v: "vs = s # ss"
    by (auto split: option.splits)
  from Cons.IH[OF b] obtain sets where
    l: "length ss = length ts" and s: "length sets = Suc (length ts)" "sets ! 0 = seen1"
      "sets ! length ts = seen'"
      "\<forall>i<length ts. typeToSchema depth checker (ts ! i) (sets ! i) = Some (ss ! i, sets ! Suc i)"
    by blast
  have "\<forall>i<length (t # ts). typeToSchema depth checker ((t # ts) ! i) ((seen # sets) ! i) =
      Some ((s # ss) ! i, (seen # sets) ! Suc i)"
  proof (intro allI impI)
    fix i assume "i < length (t # ts)"
    then show "typeToSchema depth checker ((t # ts) ! i) ((seen # sets) ! i) =
      Some ((s # ss) ! i, (seen # sets) ! Suc i)"
      using a s by (cases i) simp_all
  qed
  moreover have "length (seen # sets) = Suc (length (t # ts))" using s by simp
  moreover have "(seen # sets) ! 0 = seen" by simp
  moreover have "(seen # sets) ! length (t # ts) = seen'" using s by simp
  ultimately show ?case unfolding v using l by (intro conjI exI[of _ "seen # sets"]) simp_all
qed

lemma uniqueByKey_firsts:
  "uniqueByKey ss seenKeys uniq =
     uniq @ map (\<lambda>i. ss ! i)
       (filter (\<lambda>i. JSON_stringify (ss ! i) \<notin> set seenKeys \<union> JSON_stringify ` set (take i ss)) [0..<length ss])"
proof (induction ss arbitrary: seenKeys uniq)
  case Nil
  show ?case by simp
next
  case (Cons s ss)
  have shift: "[0..<length (s # ss)] = 0 # map Suc [0..<length ss]"
    by (simp add: upt_conv_Cons map_Suc_upt del: upt_Suc)
  show ?case
  proof (cases "JSON_stringify s \<in> set seenKeys")
    case True
    show ?thesis
      unfolding shift using True
      apply (simp add: Cons.IH filter_map comp_def del: upt_Suc)
      apply (rule arg_cong[where f = "map ((!) ss)"])
      apply (rule filter_cong)
       apply auto
      done
  next
    case False
    show ?thesis
      unfolding shift using False
      apply (simp add: Cons.IH filter_map comp_def del: upt_Suc)
      apply (rule arg_cong[where f = "map ((!) ss)"])
      apply (rule filter_cong)
       apply auto
      done
  qed
qed

lemma typeToSchemaEach_from_members:
  "length vs = length ts \<Longrightarrow> length sets = Suc (length ts) \<Longrightarrow>
   (\<forall>i<length ts. typeToSchema depth checker (ts ! i) (sets ! i) = Some (vs ! i, sets ! Suc i)) \<Longrightarrow>
   typeToSchemaEach depth checker ts (sets ! 0) = Some (vs, sets ! length ts)"
proof (induction ts arbitrary: vs sets)
  case Nil
  then show ?case by simp
next
  case (Cons t ts)
  obtain v vs' where v: "vs = v # vs'" using Cons.prems(1) by (cases vs) auto
  obtain s0 sets' where s: "sets = s0 # sets'" using Cons.prems(2) by (cases sets) auto
  have first: "typeToSchema depth checker t s0 = Some (v, sets' ! 0)"
    using Cons.prems(3)[rule_format, of 0] unfolding v s by simp
  have rest: "\<forall>i<length ts. typeToSchema depth checker (ts ! i) (sets' ! i) = Some (vs' ! i, sets' ! Suc i)"
  proof (intro allI impI)
    fix i assume "i < length ts"
    then show "typeToSchema depth checker (ts ! i) (sets' ! i) = Some (vs' ! i, sets' ! Suc i)"
      using Cons.prems(3)[rule_format, of "Suc i"] unfolding v s by simp
  qed
  have "typeToSchemaEach depth checker ts (sets' ! 0) = Some (vs', sets' ! length ts)"
    using Cons.prems(1,2) unfolding v s by (intro Cons.IH rest) simp_all
  then show ?case unfolding v s using first by simp
qed


lemma typeToSchemaEach_iff:
  "typeToSchemaEach depth checker ts seen = Some (vs, seen') \<longleftrightarrow>
     length vs = length ts \<and>
     (\<exists>sets. length sets = Suc (length ts) \<and> sets ! 0 = seen \<and> sets ! length ts = seen' \<and>
        (\<forall>i<length ts. typeToSchema depth checker (ts ! i) (sets ! i) = Some (vs ! i, sets ! Suc i)))"
proof
  assume "typeToSchemaEach depth checker ts seen = Some (vs, seen')"
  then show "length vs = length ts \<and>
     (\<exists>sets. length sets = Suc (length ts) \<and> sets ! 0 = seen \<and> sets ! length ts = seen' \<and>
        (\<forall>i<length ts. typeToSchema depth checker (ts ! i) (sets ! i) = Some (vs ! i, sets ! Suc i)))"
    by (rule typeToSchemaEach_members)
next
  assume r: "length vs = length ts \<and>
     (\<exists>sets. length sets = Suc (length ts) \<and> sets ! 0 = seen \<and> sets ! length ts = seen' \<and>
        (\<forall>i<length ts. typeToSchema depth checker (ts ! i) (sets ! i) = Some (vs ! i, sets ! Suc i)))"
  then obtain sets where l: "length vs = length ts" and s: "length sets = Suc (length ts)"
    and s0: "sets ! 0 = seen" and sl: "sets ! length ts = seen'"
    and m: "\<forall>i<length ts. typeToSchema depth checker (ts ! i) (sets ! i) = Some (vs ! i, sets ! Suc i)"
    by blast
  show "typeToSchemaEach depth checker ts seen = Some (vs, seen')"
    using typeToSchemaEach_from_members[OF l s m] unfolding s0 sl .
qed

lemma setNullable_cases:
  "setNullable s =
      (case s of
         SPrim t f _ \<Rightarrow> SPrim t f True
       | SArray items _ \<Rightarrow> SArray items True
       | SObject properties required _ \<Rightarrow> SObject properties required True
       | SRecord a _ \<Rightarrow> SRecord a True
       | SDescription d _ \<Rightarrow> SDescription d True
       | SAnyOf variants _ \<Rightarrow> SAnyOf variants True
       | SEmpty _ \<Rightarrow> SEmpty True)"
  by (cases s) simp_all

lemma typeToSchema_union:
  assumes "unionTypes (checker type) = Some parts"
  shows "typeToSchema (Suc depth) checker type seen =
    (if length (filter (\<lambda>t. \<not> flagNullish (checker t)) parts) = 1
     then (case typeToSchema depth checker (hd (filter (\<lambda>t. \<not> flagNullish (checker t)) parts)) seen of
             None \<Rightarrow> None
           | Some (s, seen') \<Rightarrow>
               Some (if \<exists>t\<in>set parts. flagNullish (checker t) then setNullable s else s, seen'))
     else (case typeToSchemaEach depth checker (filter (\<lambda>t. \<not> flagNullish (checker t)) parts) seen of
             None \<Rightarrow> None
           | Some (anyOfRaw, seen') \<Rightarrow>
               Some (SAnyOf (uniqueByKey anyOfRaw [] []) (\<exists>t\<in>set parts. flagNullish (checker t)), seen')))"
  unfolding typeToSchema.simps(2) assms option.case Let_def ..

lemma optStringTypes_member: "typeToSchema 1 optStringTypes 2 {} = Some (SPrim ''string'' None False, {})"
  by code_simp

lemma optArrayTypes_member:
  "typeToSchema 2 optArrayTypes 2 {} = Some (SArray (SPrim ''string'' None False) False, {})"
  by code_simp

lemma literalTypes_members:
  "typeToSchemaEach 1 literalTypes [2, 3, 4] {} =
     Some ([SPrim ''string'' None False, SPrim ''string'' None False, SPrim ''number'' None False], {})"
  by code_simp

lemma literalTypes_unique:
  "uniqueByKey [SPrim ''string'' None False, SPrim ''string'' None False, SPrim ''number'' None False] [] [] =
     [SPrim ''string'' None False, SPrim ''number'' None False]"
  by code_simp

lemma optObjectTypes_members:
  "typeToSchemaEach 3 optObjectTypes [2, 3] {} =
     Some ([SObject [(''0'', SPrim ''string'' None True), (''1'', SPrim ''string'' None True)] None False,
            SObject [(''0'', SPrim ''string'' None True), (''1'', SPrim ''string'' None True)] None False],
           {2, 3})"
  by code_simp

lemma optObjectTypes_unique:
  "uniqueByKey
     [SObject [(''0'', SPrim ''string'' None True), (''1'', SPrim ''string'' None True)] None False,
      SObject [(''0'', SPrim ''string'' None True), (''1'', SPrim ''string'' None True)] None False] [] [] =
     [SObject [(''0'', SPrim ''string'' None True), (''1'', SPrim ''string'' None True)] None False]"
  by code_simp

section \<open>Facts about the assembler\<close>









lemma map_of_fold_update:
  "map_of (fold (\<lambda>item acc. AList.update (f item) (g item) acc) xs acc) k =
     (case filter (\<lambda>item. f item = k) xs of
        [] \<Rightarrow> map_of acc k
      | y # ys \<Rightarrow> Some (g (last (y # ys))))"
proof (induction xs arbitrary: acc)
  case Nil
  show ?case by simp
next
  case (Cons x xs)
  show ?case
    by (simp add: Cons.IH update_conv' split: list.splits)
qed

lemma of_char_digit_char: "d < 10 \<Longrightarrow> of_char (digit_char d) = (48 + d :: nat)"
  unfolding digit_char_def by (simp only: of_char_of) simp

lemma digit_char_inj:
  assumes "a < 10" "b < 10" "digit_char a = digit_char b"
  shows "a = b"
proof -
  have "(48 + a :: nat) = of_char (digit_char a)" using of_char_digit_char[OF assms(1)] by simp
  also have "\<dots> = of_char (digit_char b)" by (simp only: assms(3))
  also have "\<dots> = 48 + b" by (rule of_char_digit_char[OF assms(2)])
  finally show ?thesis by simp
qed

lemma digit_char_not_minus: "d < 10 \<Longrightarrow> digit_char d \<noteq> CHR ''-''"
proof
  assume d: "d < 10" and e: "digit_char d = CHR ''-''"
  have "(48 + d :: nat) = of_char (digit_char d)" using of_char_digit_char[OF d] by simp
  also have "\<dots> = of_char (CHR ''-'')" by (simp only: e)
  also have "\<dots> = (45 :: nat)" by simp
  finally show False by simp
qed

lemma string_of_nat_not_Nil: "string_of_nat n \<noteq> []"
  by (subst string_of_nat.simps) simp

lemma string_of_nat_inj: "string_of_nat a = string_of_nat b \<Longrightarrow> a = b"
proof (induction a arbitrary: b rule: string_of_nat.induct)
  case (1 n)
  show ?case
  proof (cases "n < 10")
    case True
    hence l: "string_of_nat n = [digit_char n]" by (subst string_of_nat.simps) simp
    show ?thesis
    proof (cases "b < 10")
      case True
      hence "string_of_nat b = [digit_char b]" by (subst string_of_nat.simps) simp
      with l 1(2) have "digit_char n = digit_char b" by simp
      thus ?thesis using digit_char_inj \<open>n < 10\<close> True by blast
    next
      case False
      hence "string_of_nat b = string_of_nat (b div 10) @ [digit_char (b mod 10)]"
        by (subst string_of_nat.simps) simp
      with l 1(2) have "string_of_nat (b div 10) = []"
        by (metis append_is_Nil_conv butlast.simps(2) butlast_snoc)
      thus ?thesis using string_of_nat_not_Nil by blast
    qed
  next
    case False
    hence l: "string_of_nat n = string_of_nat (n div 10) @ [digit_char (n mod 10)]"
      by (subst string_of_nat.simps) simp
    show ?thesis
    proof (cases "b < 10")
      case True
      hence "string_of_nat b = [digit_char b]" by (subst string_of_nat.simps) simp
      with l 1(2) have "string_of_nat (n div 10) = []"
        by (metis append_is_Nil_conv butlast.simps(2) butlast_snoc)
      thus ?thesis using string_of_nat_not_Nil by blast
    next
      case bf: False
      hence r: "string_of_nat b = string_of_nat (b div 10) @ [digit_char (b mod 10)]"
        by (subst string_of_nat.simps) simp
      from l r 1(2) have e1: "string_of_nat (n div 10) = string_of_nat (b div 10)"
        and e2: "digit_char (n mod 10) = digit_char (b mod 10)" by simp_all
      have "n div 10 = b div 10" using 1(1)[OF False e1] .
      moreover have "n mod 10 = b mod 10" using digit_char_inj[OF _ _ e2] by simp
      ultimately show ?thesis by (metis div_mult_mod_eq)
    qed
  qed
qed

lemma string_of_nat_hd: "hd (string_of_nat n) \<noteq> CHR ''-''"
proof (induction n rule: string_of_nat.induct)
  case (1 n)
  show ?case
  proof (cases "n < 10")
    case True
    thus ?thesis by (subst string_of_nat.simps) (simp add: digit_char_not_minus)
  next
    case False
    thus ?thesis using 1 string_of_nat_not_Nil[of "n div 10"]
      by (subst string_of_nat.simps) simp
  qed
qed

lemma String_inj: "String a = String b \<Longrightarrow> a = b"
proof -
  assume e: "String a = String b"
  have neg: "\<And>x y. CHR ''-'' # string_of_nat x \<noteq> string_of_nat y"
    using string_of_nat_hd by (metis list.sel(1))
  show ?thesis
  proof (cases "a < 0")
    case True
    show ?thesis
    proof (cases "b < 0")
      case bt: True
      from e True bt have "string_of_nat (nat (- a)) = string_of_nat (nat (- b))"
        unfolding String_def by simp
      hence "nat (- a) = nat (- b)" by (rule string_of_nat_inj)
      thus ?thesis using True bt by simp
    next
      case False
      with e True show ?thesis unfolding String_def using neg by simp
    qed
  next
    case False
    show ?thesis
    proof (cases "b < 0")
      case True
      with e False show ?thesis unfolding String_def using neg[symmetric] by simp
    next
      case bf: False
      from e False bf have "string_of_nat (nat a) = string_of_nat (nat b)"
        unfolding String_def by simp
      hence "nat a = nat b" by (rule string_of_nat_inj)
      thus ?thesis using False bf by simp
    qed
  qed
qed

lemma responseCode_eq_iff:
  "responseCode a = responseCode b \<longleftrightarrow> statusOr200 (status a) = statusOr200 (status b)"
  unfolding responseCode_def using String_inj by auto

lemma fold_update_keys:
  "fst ` set (fold (\<lambda>item acc. AList.update (f item) (g item) acc) xs acc) = f ` set xs \<union> fst ` set acc"
  by (induction xs arbitrary: acc) (auto simp: dom_update)

lemma fold_update_distinct:
  "distinct (map fst acc) \<Longrightarrow> distinct (map fst (fold (\<lambda>item acc. AList.update (f item) (g item) acc) xs acc))"
  by (induction xs arbitrary: acc) (simp_all add: distinct_update)

lemma operationResponses_collected:
  "responses r = Some collected \<Longrightarrow> collected \<noteq> [] \<Longrightarrow>
   operation_responses (operationOf r) =
     fold (\<lambda>item acc. AList.update (responseCode item) (renderResponse item) acc) collected []"
  by (cases collected) (simp_all add: operationOf_def operationResponses_def Let_def)

section \<open>Facts about visitors\<close>

lemma fold_visitWith_children:
  assumes "\<And>x s. x \<in> set ns \<Longrightarrow> visitWith act x s = fold act (preorder x) s"
  shows "fold (visitWith act) ns s = fold act (concat (map preorder ns)) s"
  using assms by (induction ns arbitrary: s) simp_all

lemma visitWith_preorder: "visitWith act n s = fold act (preorder n) s"
proof (induction act n s rule: visitWith.induct)
  case (1 act n s)
  have "fold (visitWith act) (children n) (act n s) = fold act (concat (map preorder (children n))) (act n s)"
    using "1.IH" by (intro fold_visitWith_children) simp
  then show ?case
    by (subst visitWith.simps, subst preorder.simps) simp
qed

lemma forEachChild_descendants: "forEachChild act cb s = fold act (descendants cb) s"
  unfolding forEachChild_def descendants_def
  by (intro fold_visitWith_children) (rule visitWith_preorder)

lemma preorder_eq: "preorder n = n # descendants n"
  by (subst preorder.simps) (simp add: descendants_def)

lemma fold_sticky_None:
  assumes "\<And>n. act n None = None"
  shows "fold act ns None = None"
  using assms by (induction ns) simp_all

lemma fold_returns:
  assumes "\<And>n s. n \<in> set ns \<Longrightarrow> act n (Some s) \<noteq> None"
  shows "fold act ns (Some s) \<noteq> None"
  using assms
proof (induction ns arbitrary: s)
  case Nil
  then show ?case by simp
next
  case (Cons n ns)
  then obtain s' where "act n (Some s) = Some s'" by fastforce
  then show ?case using Cons by simp
qed

text \<open>A visitor that pushes onto a list collects what it pushes at each node, in order.\<close>

lemma fold_push:
  "fold (\<lambda>n acc. case acc of None \<Rightarrow> None
                  | Some rs \<Rightarrow> (case g n of None \<Rightarrow> None | Some new \<Rightarrow> Some (rs @ new)))
        ns (Some rs0) =
   (case those (map g ns) of None \<Rightarrow> None | Some xss \<Rightarrow> Some (rs0 @ concat xss))"
proof (induction ns arbitrary: rs0)
  case Nil
  then show ?case by simp
next
  case (Cons n ns)
  show ?case
  proof (cases "g n")
    case None
    have "fold (\<lambda>n acc. case acc of None \<Rightarrow> None
                  | Some rs \<Rightarrow> (case g n of None \<Rightarrow> None | Some new \<Rightarrow> Some (rs @ new))) ns None = None"
      by (rule fold_sticky_None) simp
    then show ?thesis using None by simp
  next
    case (Some new)
    then show ?thesis using Cons[of "rs0 @ new"] by (simp split: option.splits)
  qed
qed

section \<open>Facts about the analyzer\<close>

lemma findResponses_collects:
  "findResponses depth c (Some body) p =
     (case those (map (responsesAt depth c (findExplicitContentType c body p) p) (descendants body)) of
        None \<Rightarrow> None
      | Some xss \<Rightarrow> Some (concat xss))"
proof -
  have "pushResponses depth c (findExplicitContentType c body p) p =
      (\<lambda>n acc. case acc of None \<Rightarrow> None
                | Some rs \<Rightarrow> (case responsesAt depth c (findExplicitContentType c body p) p n of
                               None \<Rightarrow> None | Some new \<Rightarrow> Some (rs @ new)))"
    by (intro ext) (simp add: pushResponses_def)
  then show ?thesis
    using fold_push[of "responsesAt depth c (findExplicitContentType c body p) p" "descendants body" "[]"]
    by (simp add: findResponses_def forEachChild_descendants Let_def split: option.splits)
qed

lemma fold_last_assignment:
  "fold (\<lambda>n found. case h n of Some v \<Rightarrow> Some v | None \<Rightarrow> found) ns init =
     (case List.map_filter h ns of [] \<Rightarrow> init | v # vs \<Rightarrow> Some (last (v # vs)))"
proof (induction ns arbitrary: init)
  case Nil
  then show ?case by simp
next
  case (Cons n ns)
  show ?case
  proof (cases "h n")
    case None
    then show ?thesis using Cons[of init] by simp
  next
    case (Some v)
    then show ?thesis using Cons[of "Some v"] by (simp split: list.splits)
  qed
qed

lemma findExplicitContentType_last:
  "findExplicitContentType c body p =
     (case List.map_filter (headerCallValue c p) (descendants body) of
        [] \<Rightarrow> None
      | v # vs \<Rightarrow> Some (last (v # vs)))"
  unfolding findExplicitContentType_def forEachChild_descendants
  by (rule fold_last_assignment)

lemma headerCallValue_not_empty: "headerCallValue c p n = Some v \<Longrightarrow> v \<noteq> []"
proof (cases n)
  case (CallExpression i expr args)
  assume a: "headerCallValue c p n = Some v"
  show ?thesis
  proof (cases expr)
    case (PropertyAccessExpression j base name)
    then show ?thesis
      using a CallExpression
      by (auto simp: headerCallValue_def split: if_splits option.splits)
  qed (use a CallExpression in \<open>simp_all add: headerCallValue_def\<close>)
qed (simp_all add: headerCallValue_def)

lemma findExplicitContentType_not_empty:
  assumes "findExplicitContentType c body p = Some v"
  shows "v \<noteq> []"
proof -
  obtain w ws where ws: "List.map_filter (headerCallValue c p) (descendants body) = w # ws"
    and v: "v = last (w # ws)"
    using assms unfolding findExplicitContentType_last by (auto split: list.splits)
  have "v \<in> set (List.map_filter (headerCallValue c p) (descendants body))"
    unfolding ws v by (rule last_in_set) simp
  then obtain n where "headerCallValue c p n = Some v"
    by (auto simp: List.map_filter_def)
  then show ?thesis by (rule headerCallValue_not_empty)
qed

lemma callResponses_returns:
  assumes "\<forall>t. typeToSchema depth (typeInfo c) t {} \<noteq> None"
  shows "callResponses depth c ect name args \<noteq> None"
proof (cases "name = ''json''")
  case True
  show ?thesis
  proof (cases "nth_opt args 0")
    case None
    then show ?thesis using True by (simp add: callResponses_def Let_def)
  next
    case (Some a)
    obtain s seen where "typeToSchema depth (typeInfo c) (getTypeAtLocation c (nodeId a)) {} = Some (s, seen)"
      using assms by (metis option.exhaust surj_pair)
    then show ?thesis using True Some by (simp add: callResponses_def Let_def)
  qed
next
  case False
  then show ?thesis
    by (simp add: callResponses_def Let_def split: prod.splits)
qed

lemma responsesAt_returns:
  assumes "\<forall>t. typeToSchema depth (typeInfo c) t {} \<noteq> None"
  shows "responsesAt depth c ect p n \<noteq> None"
proof (cases n)
  case (CallExpression i expr args)
  show ?thesis
  proof (cases expr)
    case (PropertyAccessExpression j receiver callName)
    then show ?thesis
      using CallExpression callResponses_returns[OF assms] by (simp add: responsesAt_def)
  qed (simp_all add: responsesAt_def CallExpression)
next
  case (ReturnStatement i expression)
  show ?thesis
  proof (cases expression)
    case None
    then show ?thesis using ReturnStatement by (simp add: responsesAt_def)
  next
    case (Some e)
    then show ?thesis using ReturnStatement by (cases e) (simp_all add: responsesAt_def)
  qed
qed (simp_all add: responsesAt_def)

lemma findResponses_returns:
  assumes "\<forall>t. typeToSchema depth (typeInfo c) t {} \<noteq> None"
  shows "findResponses depth c cb p \<noteq> None"
proof (cases cb)
  case None
  then show ?thesis by (simp add: findResponses_def)
next
  case (Some body)
  have "\<And>n rs. pushResponses depth c (findExplicitContentType c body p) p n (Some rs) \<noteq> None"
    using responsesAt_returns[OF assms] by (auto simp: pushResponses_def split: option.splits)
  then have "fold (pushResponses depth c (findExplicitContentType c body p) p) (descendants body) (Some []) \<noteq> None"
    by (intro fold_returns) simp
  then show ?thesis using Some
    by (simp add: findResponses_def forEachChild_descendants Let_def)
qed

lemma considerTyped_returns:
  assumes "\<forall>t. typeToSchema depth (typeInfo c) t {} \<noteq> None"
  shows "considerTyped depth c typeNode \<noteq> None"
proof (cases typeNode)
  case None
  then show ?thesis by (simp add: considerTyped_def)
next
  case (Some tn)
  obtain s seen where "typeToSchema depth (typeInfo c) (getTypeFromTypeNode c tn) {} = Some (s, seen)"
    using assms by (metis option.exhaust surj_pair)
  then show ?thesis using Some by (simp add: considerTyped_def)
qed

lemma variableRequestData_returns:
  assumes "\<forall>t. typeToSchema depth (typeInfo c) t {} \<noteq> None"
  shows "variableRequestData depth c p typeNode ini st \<noteq> None"
proof -
  obtain b q r where st: "st = (b, q, r)" by (cases st) auto
  obtain ct where ct: "considerTyped depth c typeNode = Some ct"
    using considerTyped_returns[OF assms] by blast
  obtain s seen where ts: "typeToSchema depth (typeInfo c)
      (getTypeAtLocation c (nodeId (stripParensAndCasts ini))) {} = Some (s, seen)"
    using assms by (metis option.exhaust surj_pair)
  show ?thesis
    unfolding variableRequestData_def st Let_def
    using ct ts by (simp split: option.splits prod.splits)
qed

lemma requestDataAt_returns:
  assumes "\<forall>t. typeToSchema depth (typeInfo c) t {} \<noteq> None"
  shows "requestDataAt depth c p n (Some st) \<noteq> None"
proof (cases n)
  case (VariableDeclaration i name typeNode initializer)
  then show ?thesis
    using variableRequestData_returns[OF assms]
    by (cases initializer) (simp_all add: requestDataAt_def)
qed (simp_all add: requestDataAt_def)

lemma findRequestData_returns:
  assumes "\<forall>t. typeToSchema depth (typeInfo c) t {} \<noteq> None"
  shows "findRequestData depth c cb p \<noteq> None"
proof (cases cb)
  case None
  then show ?thesis by (simp add: findRequestData_def)
next
  case (Some body)
  have "fold (requestDataAt depth c p) (descendants body) (Some (None, [], [])) \<noteq> None"
    using requestDataAt_returns[OF assms] by (intro fold_returns) simp
  then show ?thesis using Some
    by (auto simp: findRequestData_def forEachChild_descendants split: option.splits)
qed

lemma routeInfoAt_returns:
  assumes "\<forall>t. typeToSchema depth (typeInfo c) t {} \<noteq> None"
  shows "routeInfoAt depth c n route \<noteq> None"
proof -
  obtain bodyNode paramName where hb: "handlerBody (handlerOf n) = (bodyNode, paramName)"
    by (cases "handlerBody (handlerOf n)") auto
  obtain found where f: "findResponses depth c bodyNode paramName = Some found"
    using findResponses_returns[OF assms] by blast
  obtain b q where r: "findRequestData depth c bodyNode paramName = Some (b, q)"
    using findRequestData_returns[OF assms] by (metis option.exhaust surj_pair)
  show ?thesis
    unfolding routeInfoAt_def hb using f r by simp
qed

lemma routeInfoAt_fields:
  assumes "routeInfoAt depth c n route = Some r"
  shows "method' r = fst route \<and> path r = snd route \<and>
    (\<exists>found. findResponses depth c (fst (handlerBody (handlerOf n))) (snd (handlerBody (handlerOf n))) = Some found \<and>
       responseTypeText r = (case found of [] \<Rightarrow> None | first # _ \<Rightarrow> found_text first) \<and>
       responseSchema r = (case found of [] \<Rightarrow> None | first # _ \<Rightarrow> found_schema first) \<and>
       responses r = Some (map toResponseItem found))"
proof -
  obtain bodyNode paramName where hb: "handlerBody (handlerOf n) = (bodyNode, paramName)"
    by (cases "handlerBody (handlerOf n)") auto
  show ?thesis
    using assms unfolding routeInfoAt_def hb
    by (auto split: option.splits)
qed

lemma pushRoute_None: "pushRoute depth c n None = None"
  by (simp add: pushRoute_def)

lemma fold_pushRoute_keys:
  "fold (pushRoute depth c) ns (Some rs0) = Some rs \<Longrightarrow>
   map (\<lambda>r. (method' r, path r)) rs =
     map (\<lambda>r. (method' r, path r)) rs0 @ List.map_filter isHonoRouteCall ns"
proof (induction ns arbitrary: rs0)
  case Nil
  then show ?case by simp
next
  case (Cons n ns)
  show ?case
  proof (cases "isHonoRouteCall n")
    case None
    then have "pushRoute depth c n (Some rs0) = Some rs0" by (simp add: pushRoute_def)
    then show ?thesis using Cons None by simp
  next
    case (Some route)
    show ?thesis
    proof (cases "routeInfoAt depth c n route")
      case None
      then have "pushRoute depth c n (Some rs0) = None" using Some by (simp add: pushRoute_def)
      then have "fold (pushRoute depth c) (n # ns) (Some rs0) = None"
        using fold_sticky_None[of "pushRoute depth c" ns] pushRoute_None by simp
      then show ?thesis using Cons.prems by simp
    next
      case r: (Some r)
      then have step: "pushRoute depth c n (Some rs0) = Some (rs0 @ [r])"
        using Some by (simp add: pushRoute_def)
      have "(method' r, path r) = route"
        using routeInfoAt_fields[OF r] by (cases route) simp
      then show ?thesis
        using Cons.IH[of "rs0 @ [r]"] Cons.prems step Some by simp
    qed
  qed
qed

lemma pushRoute_returns:
  assumes "\<forall>t. typeToSchema depth (typeInfo c) t {} \<noteq> None"
  shows "pushRoute depth c n (Some rs) \<noteq> None"
proof (cases "isHonoRouteCall n")
  case None
  then show ?thesis by (simp add: pushRoute_def)
next
  case (Some route)
  obtain r where "routeInfoAt depth c n route = Some r"
    using routeInfoAt_returns[OF assms] by blast
  then show ?thesis using Some by (simp add: pushRoute_def)
qed

lemma isHonoRouteCall_iff:
  "isHonoRouteCall n = Some (m, p) \<longleftrightarrow>
     (\<exists>i j e lit rest k. n = CallExpression i (PropertyAccessExpression j e m) (lit # rest) \<and>
        m \<in> set HttpMethods \<and> (lit = StringLiteral k p \<or> lit = NoSubstitutionTemplateLiteral k p))"
proof
  assume a: "isHonoRouteCall n = Some (m, p)"
  then obtain i expr args where n: "n = CallExpression i expr args"
    by (cases n) (simp_all add: isHonoRouteCall_def)
  then obtain j e nm where ex: "expr = PropertyAccessExpression j e nm"
    using a by (cases expr) (simp_all add: isHonoRouteCall_def)
  have mm: "nm \<in> set HttpMethods"
    using a n ex by (auto simp: isHonoRouteCall_def split: if_splits)
  then obtain lit where l: "nth_opt args 0 = Some lit" and sl: "stringLiteralLike lit = Some p" and nm: "nm = m"
    using a n ex by (auto simp: isHonoRouteCall_def split: if_splits option.splits)
  obtain rest where args: "args = lit # rest"
    using l by (cases args) (auto simp: nth_opt_def)
  have "\<exists>k. lit = StringLiteral k p \<or> lit = NoSubstitutionTemplateLiteral k p"
    using sl by (cases lit) (simp_all add: stringLiteralLike_def)
  then show "\<exists>i j e lit rest k. n = CallExpression i (PropertyAccessExpression j e m) (lit # rest) \<and>
        m \<in> set HttpMethods \<and> (lit = StringLiteral k p \<or> lit = NoSubstitutionTemplateLiteral k p)"
    using n ex mm nm args by blast
next
  assume "\<exists>i j e lit rest k. n = CallExpression i (PropertyAccessExpression j e m) (lit # rest) \<and>
        m \<in> set HttpMethods \<and> (lit = StringLiteral k p \<or> lit = NoSubstitutionTemplateLiteral k p)"
  then show "isHonoRouteCall n = Some (m, p)"
    by (auto simp: isHonoRouteCall_def nth_opt_def stringLiteralLike_def)
qed

lemma fold_pushRoute_members:
  "fold (pushRoute depth c) ns (Some rs0) = Some rs \<Longrightarrow> r \<in> set rs \<Longrightarrow>
   r \<in> set rs0 \<or> (\<exists>n\<in>set ns. \<exists>route. isHonoRouteCall n = Some route \<and> routeInfoAt depth c n route = Some r)"
proof (induction ns arbitrary: rs0)
  case Nil
  then show ?case by simp
next
  case (Cons n ns)
  show ?case
  proof (cases "isHonoRouteCall n")
    case None
    then have "pushRoute depth c n (Some rs0) = Some rs0" by (simp add: pushRoute_def)
    then show ?thesis using Cons by auto
  next
    case (Some route)
    show ?thesis
    proof (cases "routeInfoAt depth c n route")
      case None
      then have "pushRoute depth c n (Some rs0) = None" using Some by (simp add: pushRoute_def)
      then have "fold (pushRoute depth c) (n # ns) (Some rs0) = None"
        using fold_sticky_None[of "pushRoute depth c" ns] pushRoute_None by simp
      then show ?thesis using Cons.prems by simp
    next
      case r': (Some r')
      then have step: "pushRoute depth c n (Some rs0) = Some (rs0 @ [r'])"
        using Some by (simp add: pushRoute_def)
      then have "fold (pushRoute depth c) ns (Some (rs0 @ [r'])) = Some rs"
        using Cons.prems(1) by simp
      then have "r \<in> set (rs0 @ [r']) \<or>
          (\<exists>n\<in>set ns. \<exists>route. isHonoRouteCall n = Some route \<and> routeInfoAt depth c n route = Some r)"
        using Cons.IH Cons.prems(2) by blast
      then show ?thesis
      proof (elim disjE)
        assume "r \<in> set (rs0 @ [r'])"
        then have "r \<in> set rs0 \<or> r = r'" by auto
        then show ?thesis using Some r' by (metis list.set_intros(1))
      next
        assume "\<exists>n\<in>set ns. \<exists>route. isHonoRouteCall n = Some route \<and> routeInfoAt depth c n route = Some r"
        then show ?thesis by (metis list.set_intros(2))
      qed
    qed
  qed
qed

lemma map_status_toResponseItem:
  "map status (map toResponseItem found) = map (\<lambda>f. case found_status f of None \<Rightarrow> 200 | Some s \<Rightarrow> s) found"
  by (simp add: toResponseItem_def)

lemma analyzeSource_routesFile: "analyzeSource 3 pingChecker routesFile = Some [pingRoute, itemsRoute]"
  by code_simp

lemma in_withStatuses: "r \<in> set (withStatuses statuses mk) \<Longrightarrow> \<exists>st. r = mk st"
  by (auto simp: withStatuses_def split: if_splits)

lemma orElse_explicit:
  assumes "\<And>v. ect = Some v \<Longrightarrow> v \<noteq> []"
  shows "orElse ect (Some d) = Some (case ect of Some v \<Rightarrow> v | None \<Rightarrow> d)"
  using assms by (cases ect) (auto simp: orElse_def)

lemma orElse_Some: "v \<noteq> [] \<Longrightarrow> orElse (Some v) x = Some v"
  by (simp add: orElse_def)

lemma callResponses_media_type:
  assumes ne: "\<And>v. ect = Some v \<Longrightarrow> v \<noteq> []"
    and cr: "callResponses depth c ect name args = Some pushed"
    and r: "r \<in> set pushed"
  shows "(name = ''json'' \<longrightarrow> found_mediaType r = Some (case ect of Some v \<Rightarrow> v | None \<Rightarrow> ''application/json'')) \<and>
         (name = ''text'' \<longrightarrow> found_mediaType r = Some (case ect of Some v \<Rightarrow> v | None \<Rightarrow> ''text/plain'')) \<and>
         (name = ''html'' \<longrightarrow> found_mediaType r = Some (case ect of Some v \<Rightarrow> v | None \<Rightarrow> ''text/html'')) \<and>
         (name = ''body'' \<longrightarrow> (\<forall>v. ect = Some v \<longrightarrow> found_mediaType r = Some v)) \<and>
         (name = ''notFound'' \<or> name = ''redirect'' \<longrightarrow> found_mediaType r = None)"
proof (intro conjI impI allI)
  assume n: "name = ''json''"
  then obtain a s seen where "nth_opt args 0 = Some a"
      and "pushed = withStatuses (case nth_opt args 1 of None \<Rightarrow> [] | Some statusArg \<Rightarrow> extractStatuses c statusArg)
          (\<lambda>st. \<lparr> found_text = Some (typeString (typeInfo c (getTypeAtLocation c (nodeId a)))),
                 found_schema = Some s, found_status = st,
                 found_mediaType = orElse ect (Some ''application/json''), found_headers = None \<rparr>)"
    using cr r by (auto simp: callResponses_def Let_def split: option.splits)
  then have "found_mediaType r = orElse ect (Some ''application/json'')"
    using r in_withStatuses by fastforce
  then show "found_mediaType r = Some (case ect of Some v \<Rightarrow> v | None \<Rightarrow> ''application/json'')"
    using orElse_explicit[OF ne] by simp
next
  assume n: "name = ''text''"
  then have "pushed = withStatuses (case nth_opt args 1 of None \<Rightarrow> [] | Some statusArg \<Rightarrow> extractStatuses c statusArg)
          (\<lambda>st. \<lparr> found_text = None, found_schema = Some stringSchema, found_status = st,
                 found_mediaType = orElse ect (Some ''text/plain''), found_headers = None \<rparr>)"
    using cr by (simp add: callResponses_def Let_def)
  then have "found_mediaType r = orElse ect (Some ''text/plain'')"
    using r in_withStatuses by fastforce
  then show "found_mediaType r = Some (case ect of Some v \<Rightarrow> v | None \<Rightarrow> ''text/plain'')"
    using orElse_explicit[OF ne] by simp
next
  assume n: "name = ''html''"
  then have "pushed = withStatuses (case nth_opt args 1 of None \<Rightarrow> [] | Some statusArg \<Rightarrow> extractStatuses c statusArg)
          (\<lambda>st. \<lparr> found_text = None, found_schema = Some stringSchema, found_status = st,
                 found_mediaType = orElse ect (Some ''text/html''), found_headers = None \<rparr>)"
    using cr by (simp add: callResponses_def Let_def)
  then have "found_mediaType r = orElse ect (Some ''text/html'')"
    using r in_withStatuses by fastforce
  then show "found_mediaType r = Some (case ect of Some v \<Rightarrow> v | None \<Rightarrow> ''text/html'')"
    using orElse_explicit[OF ne] by simp
next
  fix v
  assume n: "name = ''body''" and e: "ect = Some v"
  have v: "v \<noteq> []" using ne e by simp
  obtain mt s where "pushed = withStatuses (case nth_opt args 1 of None \<Rightarrow> [] | Some statusArg \<Rightarrow> extractStatuses c statusArg)
          (\<lambda>st. \<lparr> found_text = None, found_schema = Some s, found_status = st,
                 found_mediaType = mt, found_headers = None \<rparr>)" and "mt = Some v"
    using cr n e v
    by (auto simp: callResponses_def Let_def orElse_Some split: option.splits prod.splits if_splits)
  then show "found_mediaType r = Some v"
    using r in_withStatuses by fastforce
next
  assume n: "name = ''notFound'' \<or> name = ''redirect''"
  then show "found_mediaType r = None"
    using cr r by (auto simp: callResponses_def Let_def)
qed

lemma csvBody_header: "findExplicitContentType plainChecker csvBody (Some ''c'') = Some ''text/html''"
  by code_simp

lemma csvBody_text:
  "responsesAt 1 plainChecker (Some ''text/html'') (Some ''c'')
     (CallExpression 58 (PropertyAccessExpression 59 (Identifier 60 ''c'') ''text'') [StringLiteral 61 ''a,b'']) =
   Some [csvTextRecord]"
  by code_simp

lemma csvBody_notFound:
  "responsesAt 1 plainChecker (Some ''text/html'') (Some ''c'')
     (CallExpression 63 (PropertyAccessExpression 64 (Identifier 65 ''c'') ''notFound'') []) =
   Some [csvNotFoundRecord]"
  by code_simp

lemma csvBody_found:
  "findResponses 1 plainChecker (Some csvBody) (Some ''c'') = Some [csvTextRecord, csvNotFoundRecord, csvTextRecord]"
  by code_simp

lemma analyzeSource_collidingFile: "analyzeSource 1 statusChecker collidingFile = Some [collidingRoute]"
  by code_simp

lemma routeInfoAt_collidingFile:
  "routeInfoAt 1 statusChecker (descendants collidingFile ! 1) (''get'', ''/u'') = Some collidingRoute"
  by code_simp

lemma collidingRoute_responses:
  "responses collidingRoute = Some [jsonItem 200, jsonItem 422, textItem 200] \<and>
   [jsonItem 200, jsonItem 422, textItem 200] \<noteq> []"
  by (simp add: collidingRoute_def)

lemma collidingRoute_last:
  "responseCode (jsonItem 200) = ''200'' \<and>
   last (filter (\<lambda>other. statusOr200 (status other) = statusOr200 (status (jsonItem 200)))
     [jsonItem 200, jsonItem 422, textItem 200]) = textItem 200"
  by code_simp

lemma fold_pushRoute:
  "fold (pushRoute depth c) ns (Some rs0) =
     map_option ((@) rs0)
       (those (map (\<lambda>(n, route). routeInfoAt depth c n route)
          (List.map_filter (\<lambda>n. map_option (Pair n) (isHonoRouteCall n)) ns)))"
proof (induction ns arbitrary: rs0)
  case Nil
  show ?case by (simp add: List.map_filter_simps)
next
  case (Cons n ns)
  show ?case
  proof (cases "isHonoRouteCall n")
    case None
    then have "pushRoute depth c n (Some rs0) = Some rs0" by (simp add: pushRoute_def)
    then show ?thesis using None Cons.IH by (simp add: List.map_filter_simps)
  next
    case (Some route)
    show ?thesis
    proof (cases "routeInfoAt depth c n route")
      case None
      then have "pushRoute depth c n (Some rs0) = None" using Some by (simp add: pushRoute_def)
      moreover have "fold (pushRoute depth c) ns None = None"
        by (rule fold_sticky_None) (rule pushRoute_None)
      ultimately show ?thesis using Some None by (simp add: List.map_filter_simps)
    next
      case r: (Some r)
      then have "pushRoute depth c n (Some rs0) = Some (rs0 @ [r])" using Some by (simp add: pushRoute_def)
      then show ?thesis using Some r Cons.IH[of "rs0 @ [r]"]
        by (simp add: List.map_filter_simps option.map_comp comp_def split: option.splits)
    qed
  qed
qed

lemma analyzeSource_registrations:
  "analyzeSource depth c sourceFile =
     those (map (\<lambda>(n, route). routeInfoAt depth c n route)
       (List.map_filter (\<lambda>n. map_option (Pair n) (isHonoRouteCall n)) (preorder sourceFile)))"
  unfolding analyzeSource_def visitWith_preorder fold_pushRoute
  by (simp add: option.map_ident cong: option.map_cong)

lemma those_map_None: "x \<in> set xs \<Longrightarrow> f x = None \<Longrightarrow> those (map f xs) = None"
  by (induction xs) (auto split: option.splits)

lemma jsonFile_registrations:
  "List.map_filter (\<lambda>n. map_option (Pair n) (isHonoRouteCall n)) (preorder jsonFile) =
     [(jsonCall, (''get'', ''/j''))]"
  by code_simp

lemma jsonFile_keys: "List.map_filter isHonoRouteCall (preorder jsonFile) = [(''get'', ''/j'')]"
  by code_simp

lemma jsonCall_handler:
  "handlerBody (handlerOf jsonCall) =
     (Some (OtherNode 309 [ReturnStatement 310 (Some (ctxCall 311 ''c'' ''json'' [Identifier 314 ''j'']))]),
      Some ''c'')"
  by code_simp

lemma jsonCall_descendant:
  "ctxCall 311 ''c'' ''json'' [Identifier 314 ''j''] \<in> set (descendants
     (OtherNode 309 [ReturnStatement 310 (Some (ctxCall 311 ''c'' ''json'' [Identifier 314 ''j'']))]))"
  by code_simp

lemma jsonCall_responsesAt:
  "responsesAt depth jsonChecker ect (Some ''c'') (ctxCall 311 ''c'' ''json'' [Identifier 314 ''j'']) = None"
proof -
  have "typeToSchema depth jsonTypes 2 {} = None" using typeToSchema_json_aux by blast
  then show ?thesis
    by (simp add: responsesAt_def ctxCall_def isCtxReceiver_def noName_def callResponses_def nth_opt_def
        jsonChecker_def plainChecker_def Let_def)
qed

lemma jsonCall_findResponses:
  "findResponses depth jsonChecker
     (Some (OtherNode 309 [ReturnStatement 310 (Some (ctxCall 311 ''c'' ''json'' [Identifier 314 ''j'']))]))
     (Some ''c'') = None"
proof -
  have "those (map (responsesAt depth jsonChecker ect (Some ''c''))
      (descendants (OtherNode 309 [ReturnStatement 310 (Some (ctxCall 311 ''c'' ''json'' [Identifier 314 ''j'']))]))) = None"
    for ect
    by (rule those_map_None[where f = "responsesAt depth jsonChecker ect (Some ''c'')",
          OF jsonCall_descendant jsonCall_responsesAt])
  then show ?thesis
    by (simp only: findResponses_collects option.case)
qed

lemma jsonCall_routeInfoAt: "routeInfoAt depth jsonChecker jsonCall (''get'', ''/j'') = None"
  by (simp only: routeInfoAt_def jsonCall_handler prod.case jsonCall_findResponses option.case)

lemma status_withStatuses:
  assumes "\<And>st. found_status (mk st) = st"
  shows "map (status \<circ> toResponseItem) (withStatuses statuses mk) = (if statuses \<noteq> [] then statuses else [200])"
  using assms by (simp add: withStatuses_def toResponseItem_def comp_def map_idI)

lemma callResponses_statuses:
  assumes cr: "callResponses depth c ect name args = Some pushed"
    and ne: "pushed \<noteq> []"
  shows "map (status \<circ> toResponseItem) pushed =
     (let statuses = (case nth_opt args 1 of None \<Rightarrow> [] | Some statusArg \<Rightarrow> extractStatuses c statusArg)
      in if statuses \<noteq> [] then statuses
         else [if name = ''notFound'' then 404 else if name = ''redirect'' then 302 else 200])"
proof -
  let ?statuses = "case nth_opt args 1 of None \<Rightarrow> [] | Some statusArg \<Rightarrow> extractStatuses c statusArg"
  show ?thesis
  proof (cases "name = ''json''")
    case is_json: True
    from is_json obtain a s where
      "pushed = withStatuses ?statuses
          (\<lambda>st. \<lparr> found_text = Some (typeString (typeInfo c (getTypeAtLocation c (nodeId a)))),
                 found_schema = Some s, found_status = st,
                 found_mediaType = orElse ect (Some ''application/json''), found_headers = None \<rparr>)"
      using cr ne by (auto simp: callResponses_def Let_def split: option.splits)
    then show ?thesis using is_json by (simp add: status_withStatuses Let_def)
  next
    case n0: False
    show ?thesis
    proof (cases "name = ''text''")
      case is_text: True
      from is_text have "pushed = withStatuses ?statuses
            (\<lambda>st. \<lparr> found_text = None, found_schema = Some stringSchema, found_status = st,
                   found_mediaType = orElse ect (Some ''text/plain''), found_headers = None \<rparr>)"
        using cr by (simp add: callResponses_def Let_def)
      then show ?thesis using is_text by (simp add: status_withStatuses Let_def)
    next
      case n1: False
      show ?thesis
      proof (cases "name = ''body''")
        case is_body: True
        from is_body obtain mt s where
          "pushed = withStatuses ?statuses
              (\<lambda>st. \<lparr> found_text = None, found_schema = Some s, found_status = st,
                     found_mediaType = mt, found_headers = None \<rparr>)"
          using cr by (auto simp: callResponses_def Let_def split: option.splits prod.splits)
        then show ?thesis using is_body by (simp add: status_withStatuses Let_def)
      next
        case n2: False
        show ?thesis
        proof (cases "name = ''html''")
          case is_html: True
          from is_html have "pushed = withStatuses ?statuses
                (\<lambda>st. \<lparr> found_text = None, found_schema = Some stringSchema, found_status = st,
                       found_mediaType = orElse ect (Some ''text/html''), found_headers = None \<rparr>)"
            using cr by (simp add: callResponses_def Let_def)
          then show ?thesis using is_html by (simp add: status_withStatuses Let_def)
        next
          case n3: False
          show ?thesis
          proof (cases "name = ''notFound''")
            case is_notFound: True
            show ?thesis
              using cr is_notFound
              by (auto simp: callResponses_def Let_def toResponseItem_def comp_def split: if_splits)
          next
            case n4: False
            show ?thesis
            proof (cases "name = ''redirect''")
              case is_redirect: True
              show ?thesis
                using cr is_redirect
                by (auto simp: callResponses_def Let_def toResponseItem_def comp_def split: if_splits)
            next
              case n5: False
              have "pushed = []" using cr n0 n1 n2 n3 n4 n5 by (simp add: callResponses_def Let_def)
              then show ?thesis using ne by simp
            qed
          qed
        qed
      qed
    qed
  qed
qed

lemma newResponseRecords_statuses:
  "map (status \<circ> toResponseItem) (newResponseRecords c ect arguments) =
     (let statuses = extractStatusFromResponseInit c (case arguments of None \<Rightarrow> None | Some as \<Rightarrow> nth_opt as 1)
      in if statuses \<noteq> [] then statuses else [200])"
  by (simp add: newResponseRecords_def Let_def toResponseItem_def comp_def map_idI)

lemma responsesAt_shape:
  assumes "responsesAt depth c ect p n = Some pushed" "pushed \<noteq> []"
  shows "(\<exists>i j receiver name args.
            n = CallExpression i (PropertyAccessExpression j receiver name) args \<and>
            isCtxReceiver p (stripParensAndCasts receiver) \<and>
            callResponses depth c ect name args = Some pushed) \<or>
         (\<exists>i j callee arguments.
            n = ReturnStatement i (Some (NewExpression j callee arguments)) \<and>
            getText c callee = ''Response'' \<and> pushed = newResponseRecords c ect arguments)"
proof (cases n)
  case (CallExpression i expr args)
  show ?thesis
  proof (cases expr)
    case (PropertyAccessExpression j receiver name)
    then show ?thesis
      using assms CallExpression by (auto simp: responsesAt_def split: if_splits)
  qed (use assms CallExpression in \<open>simp_all add: responsesAt_def\<close>)
next
  case (ReturnStatement i expression)
  show ?thesis
  proof (cases expression)
    case None
    then show ?thesis using assms ReturnStatement by (simp add: responsesAt_def)
  next
    case (Some e)
    show ?thesis
    proof (cases e)
      case (NewExpression j callee arguments)
      then show ?thesis
        using assms ReturnStatement Some by (auto simp: responsesAt_def split: if_splits)
    qed (use assms ReturnStatement Some in \<open>simp_all add: responsesAt_def\<close>)
  qed
qed (use assms in \<open>simp_all add: responsesAt_def\<close>)

lemma callResponses_names:
  assumes "callResponses depth c ect name args = Some pushed" "pushed \<noteq> []"
  shows "name \<in> {''json'', ''text'', ''body'', ''html'', ''notFound'', ''redirect''}"
proof (rule ccontr)
  assume "name \<notin> {''json'', ''text'', ''body'', ''html'', ''notFound'', ''redirect''}"
  then have "pushed = []" using assms(1) by (simp add: callResponses_def Let_def)
  then show False using assms(2) by simp
qed

lemma defaultsFile_registrations:
  "List.map_filter (\<lambda>n. map_option (Pair n) (isHonoRouteCall n)) (preorder defaultsFile) =
     [(descendants defaultsFile ! 1, (''get'', ''/d''))]"
  by code_simp

lemma defaultsFile_routeInfoAt:
  "routeInfoAt 1 codeChecker (descendants defaultsFile ! 1) (''get'', ''/d'') = Some defaultsRoute"
  by code_simp

lemma defaultsFile_json:
  "responsesAt 1 codeChecker None (Some ''c'')
     (CallExpression 221 (PropertyAccessExpression 222 (Identifier 223 ''c'') ''json'')
        [Identifier 224 ''x'', Identifier 225 ''code'']) = Some [defaultsJsonRecord]"
  by code_simp

lemma defaultsFile_redirect:
  "responsesAt 1 codeChecker None (Some ''c'')
     (CallExpression 251 (PropertyAccessExpression 252 (Identifier 253 ''c'') ''redirect'')
        [StringLiteral 254 ''/x'']) = Some [defaultsRedirectRecord]"
  by code_simp

lemma codeChecker_code: "extractStatuses codeChecker (Identifier 225 ''code'') = []"
  by code_simp

lemma identifierText_iff: "identifierText b = Some x \<longleftrightarrow> (\<exists>m. b = Identifier m x)"
  by (cases b) (auto simp: identifierText_def)

lemma isCtxReceiver_iff:
  "isCtxReceiver p b \<longleftrightarrow>
     p = None \<or> p = Some [] \<or> (\<exists>m x. b = Identifier m x \<and> p = Some x) \<or>
     (\<exists>m l x y. b = PropertyAccessExpression m (Identifier l x) y \<and> p = Some x)"
proof (cases "noName p")
  case True
  then show ?thesis by (auto simp: isCtxReceiver_def noName_def)
next
  case False
  then have p: "p \<noteq> None" "p \<noteq> Some []" by (auto simp: noName_def)
  show ?thesis
  proof (cases b)
    case (Identifier m x)
    then show ?thesis using False p by (auto simp: isCtxReceiver_def)
  next
    case (PropertyAccessExpression m e y)
    then show ?thesis using False p by (cases e) (auto simp: isCtxReceiver_def)
  qed (use False p in \<open>auto simp: isCtxReceiver_def\<close>)
qed

lemma headerCallValue_iff:
  "headerCallValue c p n = Some v \<longleftrightarrow>
     (\<exists>i j base k val rest key.
         n = CallExpression i (PropertyAccessExpression j base ''header'') (k # val # rest) \<and>
         (p = None \<or> p = Some [] \<or> (\<exists>m x. base = Identifier m x \<and> p = Some x)) \<and>
         stringLiteralLike k = Some key \<and> toLowerCase key = ''content-type'' \<and>
         resolveToStringLiteralText c True val = Some v \<and> v \<noteq> [])"
proof (cases n)
  case (CallExpression i expr args)
  show ?thesis
  proof (cases expr)
    case (PropertyAccessExpression j base name)
    have recv: "(noName p \<or> (identifierText base \<noteq> None \<and> identifierText base = p)) \<longleftrightarrow>
        (p = None \<or> p = Some [] \<or> (\<exists>m x. base = Identifier m x \<and> p = Some x))"
      using identifierText_iff[of base] by (cases p) (auto simp: noName_def)
    show ?thesis
    proof (cases args)
      case Nil
      then show ?thesis using CallExpression PropertyAccessExpression
        by (simp add: headerCallValue_def nth_opt_def)
    next
      case (Cons k rest1)
      show ?thesis
      proof (cases rest1)
        case Nil
        then show ?thesis using CallExpression PropertyAccessExpression Cons
          by (simp add: headerCallValue_def nth_opt_def)
      next
        case c2: (Cons val rest)
        have h: "headerCallValue c p (CallExpression i (PropertyAccessExpression j base name) (k # val # rest)) =
            (if name = ''header'' \<and> (noName p \<or> (identifierText base \<noteq> None \<and> identifierText base = p))
             then (case stringLiteralLike k of
                     Some keyText \<Rightarrow>
                       (case resolveToStringLiteralText c True val of
                          Some val' \<Rightarrow> if toLowerCase keyText = ''content-type'' \<and> val' \<noteq> [] then Some val' else None
                        | None \<Rightarrow> None)
                   | None \<Rightarrow> None)
             else None)"
          unfolding headerCallValue_def
          by (auto simp: nth_opt_def)
        show ?thesis
          unfolding CallExpression PropertyAccessExpression Cons c2 h[unfolded recv]
          by (auto split: option.splits if_splits)
      qed
    qed
  qed (use CallExpression in \<open>simp_all add: headerCallValue_def\<close>)
qed (simp_all add: headerCallValue_def)

lemma csvBody_header_key: "toLowerCase ''content-type'' = ''content-type''"
  by code_simp

lemma csvBody_header_value:
  "resolveToStringLiteralText plainChecker True (StringLiteral 56 ''text/csv'') = Some ''text/csv''"
  by code_simp

lemma castBody_found:
  "findExplicitContentType plainChecker castBody (Some ''c'') = None \<and>
   map_option (map found_mediaType) (findResponses 1 plainChecker (Some castBody) (Some ''c'')) =
     Some [Some ''text/plain'']"
  by code_simp

lemma otherReceiverBody_found:
  "findExplicitContentType plainChecker otherReceiverBody None = Some ''text/csv'' \<and>
   map_option (map found_mediaType) (findResponses 1 plainChecker (Some otherReceiverBody) None) =
     Some [Some ''text/csv''] \<and>
   findExplicitContentType plainChecker otherReceiverBody (Some ''ctx'') = None \<and>
   map_option (map found_mediaType) (findResponses 1 plainChecker (Some otherReceiverBody) (Some ''ctx'')) =
     Some [Some ''text/plain'']"
  by code_simp

section \<open>C4: the file name under the folder router\<close>

text \<open>
  C4. For a file under the folder router's root, the composed path is the slash-joined list
  of the converted directory segments, followed by the converted base name of the file
  (its name without the extension) when that base name is neither a method name, in any
  letter case, nor \<^verbatim>\<open>index\<close>; a method or index file adds no segment. The base name
  goes through \<^const>\<open>convertSegment\<close> like every directory segment, so it is appended
  verbatim exactly when it is not written in square brackets.
\<close>

theorem computeAutorouterPath_segments:
  assumes valid: "\<forall>s\<in>set (rs @ ds @ [f]). validSegment s"
    and inside: "\<not> startsWith ''..'' (hd (ds @ [f]))"
  shows "computeAutorouterPath (CHR ''/'' # join ''/'' rs) (CHR ''/'' # join ''/'' (rs @ ds @ [f])) =
    Some (CHR ''/'' # join ''/''
      (map convertSegment
        (if isMethodFile (strip_ext f) = None \<and> strip_ext f \<noteq> ''index''
         then ds @ [strip_ext f] else ds)))"
proof -
  let ?rel = "join ''/'' (ds @ [f])"
  have v2: "\<forall>s\<in>set (ds @ [f]). validSegment s" using valid by auto
  have rel: "path_relative (CHR ''/'' # join ''/'' rs) (CHR ''/'' # join ''/'' (rs @ ds @ [f])) = ?rel"
    using path_relative_under[of rs "ds @ [f]"] valid by simp
  obtain d rest where dr: "ds @ [f] = d # rest" by (cases "ds @ [f]") auto
  have "validSegment d" using v2 dr by (metis list.set_intros(1))
  then have nsw: "\<not> startsWith ''..'' ?rel"
    using inside startsWith_join[of d rest] dr by simp
  have segs: "nonEmpty (split_on CHR ''/'' (path_dir ?rel)) = ds" using path_dir_join[OF v2] .
  have name: "path_name ?rel = strip_ext f" using path_name_join[OF v2] .
  let ?segs' = "if isMethodFile (strip_ext f) = None \<and> strip_ext f \<noteq> ''index''
         then ds @ [strip_ext f] else ds"
  have "f \<noteq> []" using v2 by (auto simp: validSegment_def)
  then have "strip_ext f \<noteq> []" by (rule strip_ext_not_Nil)
  moreover have "\<forall>s\<in>set ds. s \<noteq> []" using v2 by (auto simp: validSegment_def)
  ultimately have "\<forall>s\<in>set ?segs'. s \<noteq> []" by auto
  then have "\<forall>s\<in>set (map convertSegment ?segs'). s \<noteq> []"
    using convertSegment_not_Nil by auto
  then have ne: "nonEmpty (map convertSegment ?segs') = map convertSegment ?segs'"
    by (rule nonEmpty_valid)
  show ?thesis
    unfolding computeAutorouterPath_def rel Let_def segs name
    using nsw ne by simp
qed

theorem computeAutorouterPath_segments_witness:
  "computeAutorouterPath ''/app'' ''/app/blog/[id]/comments.ts'' = Some ''/blog/:id/comments''"
proof -
  have "\<forall>s\<in>set ([''app''] @ [''blog'', ''[id]''] @ [''comments.ts'']). validSegment s"
    by (simp add: validSegment_def)
  moreover have "\<not> startsWith ''..'' (hd ([''blog'', ''[id]''] @ [''comments.ts'']))"
    by (simp add: startsWith_def)
  ultimately have "computeAutorouterPath (CHR ''/'' # join ''/'' [''app''])
      (CHR ''/'' # join ''/'' ([''app''] @ [''blog'', ''[id]''] @ [''comments.ts''])) =
    Some (CHR ''/'' # join ''/''
      (map convertSegment
        (if isMethodFile (strip_ext ''comments.ts'') = None \<and> strip_ext ''comments.ts'' \<noteq> ''index''
         then [''blog'', ''[id]''] @ [strip_ext ''comments.ts''] else [''blog'', ''[id]''])))"
    by (rule computeAutorouterPath_segments)
  moreover have "strip_ext ''comments.ts'' = ''comments''" by code_simp
  moreover have "isMethodFile ''comments'' = None" by code_simp
  moreover have "map convertSegment [''blog'', ''[id]'', ''comments''] = [''blog'', '':id'', ''comments'']"
    by code_simp
  ultimately show ?thesis by simp
qed

text \<open>
  The claim as stated, that the base name is appended raw with no bracket-to-colon
  conversion, fails for a file named \<^verbatim>\<open>[id].ts\<close>: its base name is \<^verbatim>\<open>[id]\<close>, no
  method name, and the path ends with \<^verbatim>\<open>:id\<close>.
\<close>

theorem computeAutorouterPath_raw_counterexample:
  "computeAutorouterPath ''/app'' ''/app/blog/[id].ts'' = Some ''/blog/:id'' \<and>
   path_name ''blog/[id].ts'' = ''[id]'' \<and> isMethodFile ''[id]'' = None \<and>
   \<not> endsWith ''[id]'' ''/blog/:id''"
  by code_simp

section \<open>C5: the order of the middleware scopes\<close>

text \<open>
  C5. The scopes are sorted by the number of pieces their prefix splits into at the
  separator, and the sort is stable. The root prefix \<^verbatim>\<open>/\<close> and a prefix one directory deep
  both split into two pieces, so for a route file in \<^verbatim>\<open>/r/users\<close> with middleware files in
  \<^verbatim>\<open>/r\<close> and in \<^verbatim>\<open>/r/users\<close> the walk's own order (deepest first) survives the sort and
  the root scope comes last.
\<close>

theorem findMiddlewareScopes_root_after_child:
  "findMiddlewareScopes (\<lambda>p. p \<in> set [''/r/middleware.ts'', ''/r/users/middleware.ts''])
     ''/r/users/route.ts'' ''/r'' = [''/users'', ''/'']"
  by code_simp

section \<open>C2: termination of the synthesizer\<close>

text \<open>
  C2. The set \<^verbatim>\<open>seen\<close> guards object expansion only. The array branch comes first and
  recurses with no guard, so for \<^verbatim>\<open>type Json = string | Json[]\<close> the synthesizer calls
  itself on \<^verbatim>\<open>Json\<close>, on \<^verbatim>\<open>Json[]\<close>, on \<^verbatim>\<open>Json\<close> again and so on: no depth of calls
  is enough for it to return.
\<close>

theorem typeToSchema_json_never_returns:
  "typeToSchema depth jsonTypes 0 {} = None"
  using typeToSchema_json_aux by blast

text \<open>
  Where the cycle passes through an object type the guard ends the recursion, and the branch
  that closes the cycle is the marker.
\<close>

lemma typeToSchema_self_reference:
  "typeToSchema 2 nodeTypes 0 {} =
     Some (SObject [(''next'', SDescription ''...recursive...'' False)] (Some [''next'']) False, {0})"
  by code_simp

text \<open>
  Types are never taken out of \<^verbatim>\<open>seen\<close>, so the marker also replaces an object type that
  occurs a second time without any cycle: in \<^verbatim>\<open>{ a: U; b: U }\<close> the property \<^verbatim>\<open>b\<close> gets it.
\<close>

lemma typeToSchema_repeated_sibling:
  "typeToSchema 3 nodeTypes 1 {} =
     Some (SObject [(''a'', SObject [(''x'', SPrim ''string'' None False)] (Some [''x'']) False),
                    (''b'', SDescription ''...recursive...'' False)] (Some [''a'', ''b'']) False, {1, 2})"
  by code_simp

section \<open>C3: unions with null or undefined\<close>

text \<open>
  C3. For a union with a null or undefined member, only the members that are neither are
  synthesized. When exactly one is left, the result is its schema with \<^verbatim>\<open>nullable\<close> set to
  true, whatever the shape of the schema, and nothing else changed. Otherwise the members
  left are synthesized one after the other in their order, each with the set \<^verbatim>\<open>seen\<close> the
  one before has left, and the result is an \<^verbatim>\<open>anyOf\<close> schema marked nullable whose variants
  are the members' schemas without those whose serialization has occurred before in the
  list, so that no two variants have the same serialization. The members are those the
  checker lists for the union.
\<close>

theorem typeToSchema_nullish_union:
  assumes u: "unionTypes (checker type) = Some parts"
    and nl: "\<exists>t\<in>set parts. flagNullish (checker t)"
    and nn: "nonNullish = filter (\<lambda>t. \<not> flagNullish (checker t)) parts"
  shows "(\<forall>only. nonNullish = [only] \<longrightarrow>
        typeToSchema (Suc depth) checker type seen =
          (case typeToSchema depth checker only seen of
             None \<Rightarrow> None
           | Some (s, seen') \<Rightarrow>
               Some (case s of
                       SPrim t f _ \<Rightarrow> SPrim t f True
                     | SArray items _ \<Rightarrow> SArray items True
                     | SObject properties required _ \<Rightarrow> SObject properties required True
                     | SRecord a _ \<Rightarrow> SRecord a True
                     | SDescription d _ \<Rightarrow> SDescription d True
                     | SAnyOf variants _ \<Rightarrow> SAnyOf variants True
                     | SEmpty _ \<Rightarrow> SEmpty True, seen'))) \<and>
    (length nonNullish \<noteq> 1 \<longrightarrow>
        typeToSchema (Suc depth) checker type seen =
          (case typeToSchemaEach depth checker nonNullish seen of
             None \<Rightarrow> None
           | Some (variants, seen') \<Rightarrow> Some (SAnyOf (uniqueByKey variants [] []) True, seen'))) \<and>
    (\<forall>variants seen'. typeToSchemaEach depth checker nonNullish seen = Some (variants, seen') \<longleftrightarrow>
        length variants = length nonNullish \<and>
        (\<exists>sets. length sets = Suc (length nonNullish) \<and> sets ! 0 = seen \<and> sets ! length nonNullish = seen' \<and>
           (\<forall>i<length nonNullish.
              typeToSchema depth checker (nonNullish ! i) (sets ! i) = Some (variants ! i, sets ! Suc i)))) \<and>
    (\<forall>variants.
        uniqueByKey variants [] [] =
          map (\<lambda>i. variants ! i)
            (filter (\<lambda>i. JSON_stringify (variants ! i) \<notin> JSON_stringify ` set (take i variants))
               [0..<length variants]) \<and>
        distinct (map JSON_stringify (uniqueByKey variants [] [])))"
proof (intro conjI allI impI)
  fix only
  assume o: "nonNullish = [only]"
  have f: "filter (\<lambda>t. \<not> flagNullish (checker t)) parts = [only]" using nn o by simp
  have t: "(\<exists>t\<in>set parts. flagNullish (checker t)) = True" using nl by simp
  show "typeToSchema (Suc depth) checker type seen =
          (case typeToSchema depth checker only seen of
             None \<Rightarrow> None
           | Some (s, seen') \<Rightarrow>
               Some (case s of
                       SPrim t f _ \<Rightarrow> SPrim t f True
                     | SArray items _ \<Rightarrow> SArray items True
                     | SObject properties required _ \<Rightarrow> SObject properties required True
                     | SRecord a _ \<Rightarrow> SRecord a True
                     | SDescription d _ \<Rightarrow> SDescription d True
                     | SAnyOf variants _ \<Rightarrow> SAnyOf variants True
                     | SEmpty _ \<Rightarrow> SEmpty True, seen'))"
    unfolding typeToSchema_union[where checker = checker and type = type, OF u] f t setNullable_cases[symmetric] by (simp split: option.splits)
next
  assume "length nonNullish \<noteq> 1"
  then have f: "(length (filter (\<lambda>t. \<not> flagNullish (checker t)) parts) = 1) = False" using nn by simp
  have t: "(\<exists>t\<in>set parts. flagNullish (checker t)) = True" using nl by simp
  show "typeToSchema (Suc depth) checker type seen =
          (case typeToSchemaEach depth checker nonNullish seen of
             None \<Rightarrow> None
           | Some (variants, seen') \<Rightarrow> Some (SAnyOf (uniqueByKey variants [] []) True, seen'))"
    unfolding typeToSchema_union[where checker = checker and type = type, OF u] f t nn by (simp split: option.splits)
next
  fix variants seen'
  show "typeToSchemaEach depth checker nonNullish seen = Some (variants, seen') \<longleftrightarrow>
        length variants = length nonNullish \<and>
        (\<exists>sets. length sets = Suc (length nonNullish) \<and> sets ! 0 = seen \<and> sets ! length nonNullish = seen' \<and>
           (\<forall>i<length nonNullish.
              typeToSchema depth checker (nonNullish ! i) (sets ! i) = Some (variants ! i, sets ! Suc i)))"
    by (rule typeToSchemaEach_iff)
next
  fix variants
  show "uniqueByKey variants [] [] =
          map (\<lambda>i. variants ! i)
            (filter (\<lambda>i. JSON_stringify (variants ! i) \<notin> JSON_stringify ` set (take i variants))
               [0..<length variants])"
    using uniqueByKey_firsts[of variants "[]" "[]"] by simp
  show "distinct (map JSON_stringify (uniqueByKey variants [] []))"
    using uniqueByKey_deduplicates by blast
qed

theorem typeToSchema_nullish_union_witness:
  "typeToSchema (Suc 1) optStringTypes 0 {} = Some (SPrim ''string'' None True, {}) \<and>
   typeToSchema (Suc 2) optArrayTypes 0 {} = Some (SArray (SPrim ''string'' None False) True, {}) \<and>
   typeToSchema (Suc 1) literalTypes 0 {} =
     Some (SAnyOf [SPrim ''string'' None False, SPrim ''number'' None False] True, {}) \<and>
   typeToSchema (Suc 3) optObjectTypes 0 {} =
     Some (SAnyOf [SObject [(''0'', SPrim ''string'' None True), (''1'', SPrim ''string'' None True)] None False]
             True, {2, 3})"
proof -
  have u1: "unionTypes (optStringTypes 0) = Some [1, 2]"
    by (simp add: optStringTypes_def plainType_def)
  have n1: "\<exists>t\<in>set [1, 2]. flagNullish (optStringTypes t)"
    by (simp add: optStringTypes_def plainType_def)
  have f1: "[2] = filter (\<lambda>t. \<not> flagNullish (optStringTypes t)) [1, 2]"
    by (simp add: optStringTypes_def plainType_def)
  have a: "typeToSchema (Suc 1) optStringTypes 0 {} = Some (SPrim ''string'' None True, {})"
    by (rule typeToSchema_nullish_union[OF u1 n1 f1, of 1 "{}", THEN conjunct1, rule_format, OF refl,
          unfolded optStringTypes_member option.case prod.case schema.case])
  have u2: "unionTypes (optArrayTypes 0) = Some [1, 2]"
    by (simp add: optArrayTypes_def plainType_def)
  have n2: "\<exists>t\<in>set [1, 2]. flagNullish (optArrayTypes t)"
    by (simp add: optArrayTypes_def plainType_def)
  have f2: "[2] = filter (\<lambda>t. \<not> flagNullish (optArrayTypes t)) [1, 2]"
    by (simp add: optArrayTypes_def plainType_def)
  have b: "typeToSchema (Suc 2) optArrayTypes 0 {} = Some (SArray (SPrim ''string'' None False) True, {})"
    by (rule typeToSchema_nullish_union[OF u2 n2 f2, of 2 "{}", THEN conjunct1, rule_format, OF refl,
          unfolded optArrayTypes_member option.case prod.case schema.case])
  have u3: "unionTypes (literalTypes 0) = Some [1, 2, 3, 4]"
    by (simp add: literalTypes_def plainType_def)
  have n3: "\<exists>t\<in>set [1, 2, 3, 4]. flagNullish (literalTypes t)"
    by (simp add: literalTypes_def plainType_def)
  have f3: "[2, 3, 4] = filter (\<lambda>t. \<not> flagNullish (literalTypes t)) [1, 2, 3, 4]"
    by (simp add: literalTypes_def plainType_def)
  have l3: "length [2 :: nat, 3, 4] \<noteq> 1" by simp
  have c: "typeToSchema (Suc 1) literalTypes 0 {} =
      Some (SAnyOf [SPrim ''string'' None False, SPrim ''number'' None False] True, {})"
    by (rule typeToSchema_nullish_union[OF u3 n3 f3, of 1 "{}", THEN conjunct2, THEN conjunct1, rule_format, OF l3,
          unfolded literalTypes_members option.case prod.case literalTypes_unique])
  have u4: "unionTypes (optObjectTypes 0) = Some [1, 2, 3]"
    by (simp add: optObjectTypes_def plainType_def)
  have n4: "\<exists>t\<in>set [1, 2, 3]. flagNullish (optObjectTypes t)"
    by (simp add: optObjectTypes_def plainType_def)
  have f4: "[2, 3] = filter (\<lambda>t. \<not> flagNullish (optObjectTypes t)) [1, 2, 3]"
    by (simp add: optObjectTypes_def plainType_def)
  have l4: "length [2 :: nat, 3] \<noteq> 1" by simp
  have d: "typeToSchema (Suc 3) optObjectTypes 0 {} =
      Some (SAnyOf [SObject [(''0'', SPrim ''string'' None True), (''1'', SPrim ''string'' None True)] None False]
              True, {2, 3})"
    by (rule typeToSchema_nullish_union[OF u4 n4 f4, of 3 "{}", THEN conjunct2, THEN conjunct1, rule_format, OF l4,
          unfolded optObjectTypes_members option.case prod.case optObjectTypes_unique])
  show ?thesis using a b c d by (intro conjI)
qed

text \<open>
  The checker holds \<^verbatim>\<open>boolean\<close> as the union of \<^verbatim>\<open>false\<close> and \<^verbatim>\<open>true\<close>, so two members
  of \<^verbatim>\<open>boolean | undefined\<close> are left and its schema is an \<^verbatim>\<open>anyOf\<close> with the one variant
  \<^verbatim>\<open>{ type: 'boolean' }\<close>.
\<close>

lemma typeToSchema_optional_boolean:
  "typeToSchema 2 optBooleanTypes 0 {} = Some (SAnyOf [SPrim ''boolean'' None False] True, {})"
  by code_simp

section \<open>C8: every operation has a response\<close>





section \<open>C1: route registrations\<close>

text \<open>
  A node is a route registration exactly when it is a call whose callee is a property
  access named after one of the seven methods and whose first argument is a string literal
  or a template literal without substitutions (\<open>isHonoRouteCall_iff\<close>). The visitor of
  \<^verbatim>\<open>analyzeSource\<close> builds one record at each registration, in document order, and the
  analysis returns the list of these records when each of them is built
  (\<open>analyzeSource_registrations\<close>). Building a record runs the type synthesis on the argument
  of every \<^verbatim>\<open>json\<close> call of the handler.

  C1. In the file \<^verbatim>\<open>app.get('/j', (c) => { return c.json(j) })\<close> with \<^verbatim>\<open>j: Json[]\<close> and
  \<^verbatim>\<open>type Json = string | Json[]\<close> there is one registration, but the synthesis of the type of
  \<^verbatim>\<open>j\<close> does not return at any depth of calls, so the analysis of the file yields no record:
  it ends in a stack overflow.
\<close>

theorem analyzeSource_recursive_array_no_routes:
  "List.map_filter isHonoRouteCall (preorder jsonFile) = [(''get'', ''/j'')]
   \<and> getTypeAtLocation jsonChecker 314 = 2
   \<and> typeToSchema depth (typeInfo jsonChecker) 2 {} = None
   \<and> analyzeSource depth jsonChecker jsonFile = None"
proof (intro conjI)
  show "List.map_filter isHonoRouteCall (preorder jsonFile) = [(''get'', ''/j'')]"
    by (rule jsonFile_keys)
  show "getTypeAtLocation jsonChecker 314 = 2" by (simp add: jsonChecker_def)
  show "typeToSchema depth (typeInfo jsonChecker) 2 {} = None"
    using typeToSchema_json_aux by (simp add: jsonChecker_def)
  show "analyzeSource depth jsonChecker jsonFile = None"
    by (simp only: analyzeSource_registrations jsonFile_registrations list.map prod.case
        jsonCall_routeInfoAt those.simps option.case)
qed

section \<open>C10: the legacy fields and the statuses of a route record\<close>

text \<open>
  C10. The records \<^const>\<open>analyzeSource\<close> returns are those built at the registrations of the
  file, one for each and in their order. With \<open>found\<close> the list \<^verbatim>\<open>findResponses\<close> returns for
  the handler of the registration, the record's \<^verbatim>\<open>responseTypeText\<close> and \<^verbatim>\<open>responseSchema\<close>
  are the text and the schema of the first element of \<open>found\<close> (both absent when \<open>found\<close> is
  empty) and its \<^verbatim>\<open>responses\<close> are the elements of \<open>found\<close> in order. The list \<open>found\<close> holds
  what the visitor pushes at the nodes below the handler's body, in document order. It
  pushes at two kinds of node only: a call of \<^verbatim>\<open>json\<close>, \<^verbatim>\<open>text\<close>, \<^verbatim>\<open>body\<close>, \<^verbatim>\<open>html\<close>,
  \<^verbatim>\<open>notFound\<close> or \<^verbatim>\<open>redirect\<close> on the context, and the return of a \<^verbatim>\<open>new Response\<close>. The
  statuses of the items of one call are the statuses its status argument resolves to; when
  there is none, the call has one item, with the status 404 for \<^verbatim>\<open>notFound\<close>, 302 for
  \<^verbatim>\<open>redirect\<close> and 200 for the others.
\<close>

theorem analyzeSource_legacy_fields:
  "analyzeSource depth c sourceFile =
     those (map (\<lambda>(n, route). routeInfoAt depth c n route)
       (List.map_filter (\<lambda>n. map_option (Pair n) (isHonoRouteCall n)) (preorder sourceFile))) \<and>
   (\<forall>n route r. routeInfoAt depth c n route = Some r \<longrightarrow>
      (\<exists>found.
         findResponses depth c (fst (handlerBody (handlerOf n))) (snd (handlerBody (handlerOf n))) = Some found \<and>
         responseTypeText r = (case found of [] \<Rightarrow> None | first # _ \<Rightarrow> found_text first) \<and>
         responseSchema r = (case found of [] \<Rightarrow> None | first # _ \<Rightarrow> found_schema first) \<and>
         responses r = Some (map toResponseItem found))) \<and>
   (\<forall>body p. findResponses depth c (Some body) p =
      map_option concat
        (those (map (responsesAt depth c (findExplicitContentType c body p) p) (descendants body)))) \<and>
   (\<forall>ect p n pushed. responsesAt depth c ect p n = Some pushed \<longrightarrow> pushed \<noteq> [] \<longrightarrow>
      (\<exists>i j receiver name args.
          n = CallExpression i (PropertyAccessExpression j receiver name) args \<and>
          isCtxReceiver p (stripParensAndCasts receiver) \<and>
          name \<in> {''json'', ''text'', ''body'', ''html'', ''notFound'', ''redirect''} \<and>
          map (status \<circ> toResponseItem) pushed =
            (let statuses = (case nth_opt args 1 of None \<Rightarrow> [] | Some statusArg \<Rightarrow> extractStatuses c statusArg)
             in if statuses \<noteq> [] then statuses
                else [if name = ''notFound'' then 404 else if name = ''redirect'' then 302 else 200])) \<or>
      (\<exists>i j callee arguments.
          n = ReturnStatement i (Some (NewExpression j callee arguments)) \<and>
          getText c callee = ''Response'' \<and>
          map (status \<circ> toResponseItem) pushed =
            (let statuses = extractStatusFromResponseInit c
                              (case arguments of None \<Rightarrow> None | Some as \<Rightarrow> nth_opt as 1)
             in if statuses \<noteq> [] then statuses else [200])))"
proof (intro conjI allI impI)
  show "analyzeSource depth c sourceFile =
     those (map (\<lambda>(n, route). routeInfoAt depth c n route)
       (List.map_filter (\<lambda>n. map_option (Pair n) (isHonoRouteCall n)) (preorder sourceFile)))"
    by (rule analyzeSource_registrations)
next
  fix n route r
  assume "routeInfoAt depth c n route = Some r"
  from routeInfoAt_fields[OF this]
  show "\<exists>found.
         findResponses depth c (fst (handlerBody (handlerOf n))) (snd (handlerBody (handlerOf n))) = Some found \<and>
         responseTypeText r = (case found of [] \<Rightarrow> None | first # _ \<Rightarrow> found_text first) \<and>
         responseSchema r = (case found of [] \<Rightarrow> None | first # _ \<Rightarrow> found_schema first) \<and>
         responses r = Some (map toResponseItem found)"
    by simp
next
  fix body p
  show "findResponses depth c (Some body) p =
      map_option concat
        (those (map (responsesAt depth c (findExplicitContentType c body p) p) (descendants body)))"
    unfolding findResponses_collects by (simp split: option.splits)
next
  fix ect p n pushed
  assume a: "responsesAt depth c ect p n = Some pushed" and ne: "pushed \<noteq> []"
  from responsesAt_shape[OF a ne]
  show "(\<exists>i j receiver name args.
          n = CallExpression i (PropertyAccessExpression j receiver name) args \<and>
          isCtxReceiver p (stripParensAndCasts receiver) \<and>
          name \<in> {''json'', ''text'', ''body'', ''html'', ''notFound'', ''redirect''} \<and>
          map (status \<circ> toResponseItem) pushed =
            (let statuses = (case nth_opt args 1 of None \<Rightarrow> [] | Some statusArg \<Rightarrow> extractStatuses c statusArg)
             in if statuses \<noteq> [] then statuses
                else [if name = ''notFound'' then 404 else if name = ''redirect'' then 302 else 200])) \<or>
      (\<exists>i j callee arguments.
          n = ReturnStatement i (Some (NewExpression j callee arguments)) \<and>
          getText c callee = ''Response'' \<and>
          map (status \<circ> toResponseItem) pushed =
            (let statuses = extractStatusFromResponseInit c
                              (case arguments of None \<Rightarrow> None | Some as \<Rightarrow> nth_opt as 1)
             in if statuses \<noteq> [] then statuses else [200]))"
  proof (elim disjE exE conjE)
    fix i j receiver name args
    assume n: "n = CallExpression i (PropertyAccessExpression j receiver name) args"
      and r: "isCtxReceiver p (stripParensAndCasts receiver)"
      and cr: "callResponses depth c ect name args = Some pushed"
    note callResponses_names[OF cr ne] callResponses_statuses[OF cr ne]
    with n r show ?thesis by (intro disjI1 exI conjI)
  next
    fix i j callee arguments
    assume n: "n = ReturnStatement i (Some (NewExpression j callee arguments))"
      and g: "getText c callee = ''Response''"
      and pu: "pushed = newResponseRecords c ect arguments"
    have "map (status \<circ> toResponseItem) pushed =
            (let statuses = extractStatusFromResponseInit c
                              (case arguments of None \<Rightarrow> None | Some as \<Rightarrow> nth_opt as 1)
             in if statuses \<noteq> [] then statuses else [200])"
      unfolding pu by (rule newResponseRecords_statuses)
    with n g show ?thesis by (intro disjI2 exI conjI)
  qed
qed

theorem analyzeSource_legacy_fields_witness:
  "analyzeSource 1 codeChecker defaultsFile = Some [defaultsRoute] \<and>
   (\<exists>found.
      findResponses 1 codeChecker (fst (handlerBody (handlerOf (descendants defaultsFile ! 1))))
        (snd (handlerBody (handlerOf (descendants defaultsFile ! 1)))) = Some found \<and>
      responseTypeText defaultsRoute = (case found of [] \<Rightarrow> None | first # _ \<Rightarrow> found_text first) \<and>
      responseSchema defaultsRoute = (case found of [] \<Rightarrow> None | first # _ \<Rightarrow> found_schema first) \<and>
      responses defaultsRoute = Some (map toResponseItem found)) \<and>
   map (status \<circ> toResponseItem) [defaultsJsonRecord] = [200] \<and>
   map (status \<circ> toResponseItem) [defaultsRedirectRecord] = [302]"
proof -
  note main = analyzeSource_legacy_fields[of 1 codeChecker defaultsFile]
  have a: "analyzeSource 1 codeChecker defaultsFile = Some [defaultsRoute]"
    using main[THEN conjunct1]
    by (simp only: defaultsFile_registrations list.map prod.case defaultsFile_routeInfoAt those.simps
        option.case option.map)
  note b = main[THEN conjunct2, THEN conjunct1, rule_format, OF defaultsFile_routeInfoAt]
  note statuses = main[THEN conjunct2, THEN conjunct2, THEN conjunct2, rule_format]
  have n1: "[defaultsJsonRecord] \<noteq> []" by simp
  have c: "map (status \<circ> toResponseItem) [defaultsJsonRecord] = [200]"
    using statuses[OF defaultsFile_json n1]
    by (auto simp: nth_opt_def codeChecker_code Let_def)
  have n2: "[defaultsRedirectRecord] \<noteq> []" by simp
  have d: "map (status \<circ> toResponseItem) [defaultsRedirectRecord] = [302]"
    using statuses[OF defaultsFile_redirect n2]
    by (auto simp: nth_opt_def Let_def)
  show ?thesis using a b c d by (intro conjI)
qed

text \<open>
  The status of a call that resolves to none is therefore not always 200: in
  \<^const>\<open>redirectFile\<close> the argument \<^verbatim>\<open>code: number\<close> resolves to no status, the \<^verbatim>\<open>json\<close> call is
  recorded with 200 and the \<^verbatim>\<open>redirect\<close> call with 302.
\<close>

theorem analyzeSource_redirect_status_counterexample:
  "extractStatuses codeChecker (Identifier 225 ''code'') = [] \<and>
   analyzeSource 1 codeChecker redirectFile = Some [redirectRoute] \<and>
   map_option (map status) (responses redirectRoute) = Some [200, 302]"
  by code_simp

section \<open>C6: the explicit content type\<close>

text \<open>
  C6. A header call counts when it is a call \<^verbatim>\<open>x.header(k, v, ...)\<close> whose receiver \<^verbatim>\<open>x\<close> is
  the identifier of the handler's first parameter itself (any receiver when the handler has
  no such name), whose \<^verbatim>\<open>k\<close> is a string literal equal to \<^verbatim>\<open>content-type\<close> up to case and
  whose \<^verbatim>\<open>v\<close> resolves to a string that is not empty. The explicit content type of a body
  is the value of the last header call that counts, in document order below the body. It is
  computed before any response is collected and applies to the whole body: every record of
  a \<^verbatim>\<open>json\<close>, \<^verbatim>\<open>text\<close> or \<^verbatim>\<open>html\<close> call has it as its media type, wherever the call stands,
  and the call's own default (application/json, text/plain, text/html) when the body has no
  header call that counts; a record of a \<^verbatim>\<open>body\<close> call has it when there is one. Records of
  \<^verbatim>\<open>notFound\<close> and \<^verbatim>\<open>redirect\<close> calls carry no media type. A record of \<^verbatim>\<open>new Response\<close> has the
  content type of its own init headers when they give one, and the explicit content type
  otherwise. A response call is recorded when its receiver, with parentheses and casts
  removed, is the parameter or a property of it (any receiver when there is no name): the
  receiver of a header call is not stripped in this way, so
  \<^verbatim>\<open>(c as any).header('content-type', 'text/csv')\<close> does not count (\<open>castBody_found\<close>).
\<close>

theorem findResponses_media_type:
  "(\<forall>n v. headerCallValue c p n = Some v \<longleftrightarrow>
      (\<exists>i j base k val rest key.
          n = CallExpression i (PropertyAccessExpression j base ''header'') (k # val # rest) \<and>
          (p = None \<or> p = Some [] \<or> (\<exists>m x. base = Identifier m x \<and> p = Some x)) \<and>
          stringLiteralLike k = Some key \<and> toLowerCase key = ''content-type'' \<and>
          resolveToStringLiteralText c True val = Some v \<and> v \<noteq> [])) \<and>
   findExplicitContentType c body p =
     (case List.map_filter (headerCallValue c p) (descendants body) of
        [] \<Rightarrow> None
      | v # vs \<Rightarrow> Some (last (v # vs))) \<and>
   findResponses depth c (Some body) p =
     map_option concat
       (those (map (responsesAt depth c (findExplicitContentType c body p) p) (descendants body))) \<and>
   (\<forall>i j receiver name args pushed r.
      responsesAt depth c (findExplicitContentType c body p) p
        (CallExpression i (PropertyAccessExpression j receiver name) args) = Some pushed \<longrightarrow>
      r \<in> set pushed \<longrightarrow>
        isCtxReceiver p (stripParensAndCasts receiver) \<and>
        (name = ''json'' \<longrightarrow> found_mediaType r =
           Some (case findExplicitContentType c body p of Some v \<Rightarrow> v | None \<Rightarrow> ''application/json'')) \<and>
        (name = ''text'' \<longrightarrow> found_mediaType r =
           Some (case findExplicitContentType c body p of Some v \<Rightarrow> v | None \<Rightarrow> ''text/plain'')) \<and>
        (name = ''html'' \<longrightarrow> found_mediaType r =
           Some (case findExplicitContentType c body p of Some v \<Rightarrow> v | None \<Rightarrow> ''text/html'')) \<and>
        (name = ''body'' \<longrightarrow> (\<forall>v. findExplicitContentType c body p = Some v \<longrightarrow> found_mediaType r = Some v)) \<and>
        (name = ''notFound'' \<or> name = ''redirect'' \<longrightarrow> found_mediaType r = None)) \<and>
   (\<forall>b. isCtxReceiver p b \<longleftrightarrow>
      p = None \<or> p = Some [] \<or> (\<exists>m x. b = Identifier m x \<and> p = Some x) \<or>
      (\<exists>m l x y. b = PropertyAccessExpression m (Identifier l x) y \<and> p = Some x)) \<and>
   (\<forall>arguments r. r \<in> set (newResponseRecords c (findExplicitContentType c body p) arguments) \<longrightarrow>
      found_mediaType r =
        orElse (inferMediaTypeFromResponseInit c (case arguments of None \<Rightarrow> None | Some as \<Rightarrow> nth_opt as 1))
          (findExplicitContentType c body p))"
proof (intro conjI allI impI)
  fix n v
  show "headerCallValue c p n = Some v \<longleftrightarrow>
      (\<exists>i j base k val rest key.
          n = CallExpression i (PropertyAccessExpression j base ''header'') (k # val # rest) \<and>
          (p = None \<or> p = Some [] \<or> (\<exists>m x. base = Identifier m x \<and> p = Some x)) \<and>
          stringLiteralLike k = Some key \<and> toLowerCase key = ''content-type'' \<and>
          resolveToStringLiteralText c True val = Some v \<and> v \<noteq> [])"
    by (rule headerCallValue_iff)
next
  show "findExplicitContentType c body p =
     (case List.map_filter (headerCallValue c p) (descendants body) of
        [] \<Rightarrow> None
      | v # vs \<Rightarrow> Some (last (v # vs)))"
    by (rule findExplicitContentType_last)
next
  show "findResponses depth c (Some body) p =
     map_option concat
       (those (map (responsesAt depth c (findExplicitContentType c body p) p) (descendants body)))"
    unfolding findResponses_collects by (simp split: option.splits)
next
  fix b
  show "isCtxReceiver p b \<longleftrightarrow>
      p = None \<or> p = Some [] \<or> (\<exists>m x. b = Identifier m x \<and> p = Some x) \<or>
      (\<exists>m l x y. b = PropertyAccessExpression m (Identifier l x) y \<and> p = Some x)"
    by (rule isCtxReceiver_iff)
next
  fix arguments r
  assume "r \<in> set (newResponseRecords c (findExplicitContentType c body p) arguments)"
  then show "found_mediaType r =
        orElse (inferMediaTypeFromResponseInit c (case arguments of None \<Rightarrow> None | Some as \<Rightarrow> nth_opt as 1))
          (findExplicitContentType c body p)"
    by (auto simp: newResponseRecords_def Let_def)
next
  fix i j receiver name args pushed r
  assume ra: "responsesAt depth c (findExplicitContentType c body p) p
        (CallExpression i (PropertyAccessExpression j receiver name) args) = Some pushed"
    and r: "r \<in> set pushed"
  show "isCtxReceiver p (stripParensAndCasts receiver)"
    using ra r by (auto simp: responsesAt_def split: if_splits)
  have cr: "callResponses depth c (findExplicitContentType c body p) name args = Some pushed"
    using ra r by (auto simp: responsesAt_def split: if_splits)
  have ne: "\<And>v. findExplicitContentType c body p = Some v \<Longrightarrow> v \<noteq> []"
    by (rule findExplicitContentType_not_empty)
  note m = callResponses_media_type[OF ne cr r]
  { assume "name = ''json''"
    then show "found_mediaType r =
        Some (case findExplicitContentType c body p of Some v \<Rightarrow> v | None \<Rightarrow> ''application/json'')"
      using m by simp }
  { assume "name = ''text''"
    then show "found_mediaType r =
        Some (case findExplicitContentType c body p of Some v \<Rightarrow> v | None \<Rightarrow> ''text/plain'')"
      using m by simp }
  { assume "name = ''html''"
    then show "found_mediaType r =
        Some (case findExplicitContentType c body p of Some v \<Rightarrow> v | None \<Rightarrow> ''text/html'')"
      using m by simp }
  { fix v assume "name = ''body''" "findExplicitContentType c body p = Some v"
    then show "found_mediaType r = Some v"
      using m by simp }
  { assume "name = ''notFound'' \<or> name = ''redirect''"
    then show "found_mediaType r = None"
      using m by simp }
qed

theorem findResponses_media_type_witness:
  "headerCallValue plainChecker (Some ''c'')
     (CallExpression 52 (PropertyAccessExpression 53 (Identifier 54 ''c'') ''header'')
        [StringLiteral 55 ''content-type'', StringLiteral 56 ''text/csv'']) = Some ''text/csv'' \<and>
   findExplicitContentType plainChecker csvBody (Some ''c'') =
     (case List.map_filter (headerCallValue plainChecker (Some ''c'')) (descendants csvBody) of
        [] \<Rightarrow> None
      | v # vs \<Rightarrow> Some (last (v # vs))) \<and>
   Some [csvTextRecord, csvNotFoundRecord, csvTextRecord] =
     map_option concat
       (those (map (responsesAt 1 plainChecker (Some ''text/html'') (Some ''c'')) (descendants csvBody))) \<and>
   found_mediaType csvTextRecord = Some ''text/html'' \<and>
   found_mediaType csvNotFoundRecord = None"
proof -
  note main = findResponses_media_type[of plainChecker "Some ''c''" csvBody 1]
  note partH = main[THEN conjunct1, rule_format]
  note partA = main[THEN conjunct2, THEN conjunct1]
  note partB = main[THEN conjunct2, THEN conjunct2, THEN conjunct1]
  note partC = main[THEN conjunct2, THEN conjunct2, THEN conjunct2, THEN conjunct1, rule_format]
  have ex: "\<exists>i j base k val rest key.
      CallExpression 52 (PropertyAccessExpression 53 (Identifier 54 ''c'') ''header'')
        [StringLiteral 55 ''content-type'', StringLiteral 56 ''text/csv''] =
      CallExpression i (PropertyAccessExpression j base ''header'') (k # val # rest) \<and>
      (Some ''c'' = None \<or> Some ''c'' = Some [] \<or> (\<exists>m x. base = Identifier m x \<and> Some ''c'' = Some x)) \<and>
      stringLiteralLike k = Some key \<and> toLowerCase key = ''content-type'' \<and>
      resolveToStringLiteralText plainChecker True val = Some ''text/csv'' \<and> ''text/csv'' \<noteq> []"
    by (rule exI[of _ 52], rule exI[of _ 53], rule exI[of _ "Identifier 54 ''c''"],
        rule exI[of _ "StringLiteral 55 ''content-type''"], rule exI[of _ "StringLiteral 56 ''text/csv''"],
        rule exI[of _ "[]"], rule exI[of _ "''content-type''"])
       (simp add: stringLiteralLike_def csvBody_header_key csvBody_header_value)
  have h: "headerCallValue plainChecker (Some ''c'')
     (CallExpression 52 (PropertyAccessExpression 53 (Identifier 54 ''c'') ''header'')
        [StringLiteral 55 ''content-type'', StringLiteral 56 ''text/csv'']) = Some ''text/csv''"
    by (rule partH[THEN iffD2, OF ex])
  have b: "Some [csvTextRecord, csvNotFoundRecord, csvTextRecord] =
     map_option concat
       (those (map (responsesAt 1 plainChecker (Some ''text/html'') (Some ''c'')) (descendants csvBody)))"
    using partB unfolding csvBody_header csvBody_found .
  have t1: "responsesAt 1 plainChecker (findExplicitContentType plainChecker csvBody (Some ''c'')) (Some ''c'')
     (CallExpression 58 (PropertyAccessExpression 59 (Identifier 60 ''c'') ''text'') [StringLiteral 61 ''a,b'']) =
     Some [csvTextRecord]"
    unfolding csvBody_header by (rule csvBody_text)
  have t2: "csvTextRecord \<in> set [csvTextRecord]" by simp
  have c: "found_mediaType csvTextRecord = Some ''text/html''"
    using partC[OF t1 t2] unfolding csvBody_header by simp
  have n1: "responsesAt 1 plainChecker (findExplicitContentType plainChecker csvBody (Some ''c'')) (Some ''c'')
     (CallExpression 63 (PropertyAccessExpression 64 (Identifier 65 ''c'') ''notFound'') []) =
     Some [csvNotFoundRecord]"
    unfolding csvBody_header by (rule csvBody_notFound)
  have n2: "csvNotFoundRecord \<in> set [csvNotFoundRecord]" by simp
  have d: "found_mediaType csvNotFoundRecord = None"
    using partC[OF n1 n2] by simp
  show ?thesis using h partA b c d by (intro conjI)
qed

text \<open>
  The claim as stated fails where a second header call follows: in \<^const>\<open>csvBody\<close> the
  text call stands after the header call that sets \<^verbatim>\<open>text/csv\<close>, and its record has
  \<^verbatim>\<open>text/html\<close>, the value of the later header call. The record of the notFound call
  has no media type at all.
\<close>

theorem findResponses_later_header_counterexample:
  "headerCallValue plainChecker (Some ''c'') (descendants csvBody ! 1) = Some ''text/csv'' \<and>
   descendants csvBody ! 7 =
     CallExpression 58 (PropertyAccessExpression 59 (Identifier 60 ''c'') ''text'') [StringLiteral 61 ''a,b''] \<and>
   descendants csvBody ! 12 =
     CallExpression 63 (PropertyAccessExpression 64 (Identifier 65 ''c'') ''notFound'') [] \<and>
   findResponses 1 plainChecker (Some csvBody) (Some ''c'') =
     Some [csvTextRecord, csvNotFoundRecord, csvTextRecord] \<and>
   found_mediaType csvTextRecord = Some ''text/html'' \<and>
   found_mediaType csvNotFoundRecord = None"
  by code_simp

section \<open>C7: several statuses in one handler\<close>

text \<open>
  Where the calls stand below the body of the handler, the analysis does what is
  claimed: a block with \<^verbatim>\<open>c.json(user, 200)\<close> and \<^verbatim>\<open>c.json(err, 422)\<close> gives two records and
  the two keys, and a returned \<^verbatim>\<open>c.json(message, status)\<close> with \<^verbatim>\<open>status: 400 | 422\<close> gives
  one record for each member of the union.
\<close>

lemma analyzeSource_twoStatusFile:
  "map_option (map (\<lambda>r. map_option (map status) (responses r))) (analyzeSource 1 plainChecker twoStatusFile)
     = Some [Some [200, 422]]
   \<and> map_option (map (\<lambda>r. map fst (operation_responses (operationOf r)))) (analyzeSource 1 plainChecker twoStatusFile)
     = Some [[''200'', ''422'']]"
  by code_simp

lemma analyzeSource_blockFile:
  "map_option (map (\<lambda>r. map_option (map status) (responses r))) (analyzeSource 1 statusChecker blockFile)
     = Some [Some [400, 422]]
   \<and> map_option (map (\<lambda>r. map fst (operation_responses (operationOf r)))) (analyzeSource 1 statusChecker blockFile)
     = Some [[''400'', ''422'']]"
  by code_simp

text \<open>
  C7. The visitor of \<^verbatim>\<open>findResponses\<close> starts at the children of the body and never looks
  at the body itself. In \<^verbatim>\<open>app.get('/x', (c) => c.json(message, status))\<close> the body of the
  handler is the call, so the call is not seen: although the status argument resolves to
  the two statuses 400 and 422, the analysis yields no response record at all, the route
  has an empty list of responses and no legacy schema, and its operation has the single
  key \<^verbatim>\<open>200\<close>, from the fallback.
\<close>

theorem analyzeSource_concise_arrow_no_records:
  "extractStatuses statusChecker (Identifier 91 ''status'') = [400, 422]
   \<and> handlerBody (handlerOf (descendants conciseFile ! 1)) = (Some statusJsonCall, Some ''c'')
   \<and> findResponses 1 statusChecker (Some statusJsonCall) (Some ''c'') = Some []
   \<and> analyzeSource 1 statusChecker conciseFile = Some [conciseRoute]
   \<and> map fst (operation_responses (operationOf conciseRoute)) = [''200'']"
  by code_simp

section \<open>C9: one response entry for each code\<close>

text \<open>
  C9. The key of a record in the responses of an operation is \<^verbatim>\<open>String(status || 200)\<close>, so
  two records collide exactly when their statuses are the same once 0 is read as 200. For
  a route with a list of records that is not empty, the operation has one entry for each
  such code, and the entry of a record's code is the one rendered from the last record of
  the list with that code: earlier ones leave nothing. The list of the route itself is the
  list found by the analysis, element by element.
\<close>

theorem operationResponses_last_wins:
  "(\<forall>collected. responses r = Some collected \<and> collected \<noteq> [] \<longrightarrow>
      distinct (map fst (operation_responses (operationOf r))) \<and>
      fst ` set (operation_responses (operationOf r)) = responseCode ` set collected \<and>
      (\<forall>item\<in>set collected.
         map_of (operation_responses (operationOf r)) (responseCode item) =
           Some (renderResponse
             (last (filter (\<lambda>other. statusOr200 (status other) = statusOr200 (status item)) collected))))) \<and>
   (\<forall>a b. responseCode a = responseCode b \<longleftrightarrow> statusOr200 (status a) = statusOr200 (status b)) \<and>
   (\<forall>depth c n route. routeInfoAt depth c n route = Some r \<longrightarrow>
      (\<exists>found. findResponses depth c (fst (handlerBody (handlerOf n))) (snd (handlerBody (handlerOf n))) = Some found \<and>
         responses r = Some (map toResponseItem found)))"
proof (intro conjI allI impI ballI)
  fix collected
  assume a: "responses r = Some collected \<and> collected \<noteq> []"
  note ops = operationResponses_collected[OF a[THEN conjunct1] a[THEN conjunct2]]
  show "distinct (map fst (operation_responses (operationOf r)))"
    unfolding ops by (rule fold_update_distinct) simp
  show "fst ` set (operation_responses (operationOf r)) = responseCode ` set collected"
    unfolding ops fold_update_keys by simp
  fix item
  assume i: "item \<in> set collected"
  let ?same = "filter (\<lambda>other. responseCode other = responseCode item) collected"
  have same: "?same = filter (\<lambda>other. statusOr200 (status other) = statusOr200 (status item)) collected"
    by (simp only: responseCode_eq_iff)
  have "item \<in> set ?same" using i by simp
  then obtain y ys where ne: "?same = y # ys" by (cases ?same) auto
  have "map_of (operation_responses (operationOf r)) (responseCode item) = Some (renderResponse (last ?same))"
    unfolding ops map_of_fold_update ne by simp
  then show "map_of (operation_responses (operationOf r)) (responseCode item) =
           Some (renderResponse
             (last (filter (\<lambda>other. statusOr200 (status other) = statusOr200 (status item)) collected)))"
    unfolding same .
next
  fix a b
  show "responseCode a = responseCode b \<longleftrightarrow> statusOr200 (status a) = statusOr200 (status b)"
    by (rule responseCode_eq_iff)
next
  fix depth c n route
  assume "routeInfoAt depth c n route = Some r"
  from routeInfoAt_fields[OF this]
  show "\<exists>found. findResponses depth c (fst (handlerBody (handlerOf n))) (snd (handlerBody (handlerOf n))) = Some found \<and>
         responses r = Some (map toResponseItem found)"
    by blast
qed

theorem operationResponses_last_wins_witness:
  "distinct (map fst (operation_responses (operationOf collidingRoute))) \<and>
   map_of (operation_responses (operationOf collidingRoute)) ''200'' = Some (renderResponse (textItem 200)) \<and>
   (\<exists>found. findResponses 1 statusChecker
        (fst (handlerBody (handlerOf (descendants collidingFile ! 1))))
        (snd (handlerBody (handlerOf (descendants collidingFile ! 1)))) = Some found \<and>
      responses collidingRoute = Some (map toResponseItem found))"
proof -
  note main = operationResponses_last_wins[of collidingRoute]
  note partA = main[THEN conjunct1, rule_format, OF collidingRoute_responses]
  have m: "jsonItem 200 \<in> set [jsonItem 200, jsonItem 422, textItem 200]" by simp
  have a: "distinct (map fst (operation_responses (operationOf collidingRoute)))"
    by (rule partA[THEN conjunct1])
  have b: "map_of (operation_responses (operationOf collidingRoute)) ''200'' = Some (renderResponse (textItem 200))"
    using partA[THEN conjunct2, THEN conjunct2, rule_format, OF m]
    unfolding collidingRoute_last[THEN conjunct1] collidingRoute_last[THEN conjunct2] .
  have c: "\<exists>found. findResponses 1 statusChecker
        (fst (handlerBody (handlerOf (descendants collidingFile ! 1))))
        (snd (handlerBody (handlerOf (descendants collidingFile ! 1)))) = Some found \<and>
      responses collidingRoute = Some (map toResponseItem found)"
    by (rule main[THEN conjunct2, THEN conjunct2, rule_format, OF routeInfoAt_collidingFile])
  show ?thesis using a b c by (intro conjI)
qed

text \<open>
  Read with the status as it stands in the record, the claim fails at the status 0:
  for \<^verbatim>\<open>c.json(user, 200)\<close>, \<^verbatim>\<open>c.html(page, 200)\<close> and \<^verbatim>\<open>c.text(msg, 0)\<close> the last record with the
  status 200 is the one of the html call, and the entry \<^verbatim>\<open>200\<close> is the one of the text call.
\<close>

theorem operationResponses_zero_status_counterexample:
  "analyzeSource 1 statusChecker zeroStatusFile = Some [zeroStatusRoute] \<and>
   responses zeroStatusRoute = Some [jsonItem 200, htmlItem 200, textItem 0] \<and>
   last (filter (\<lambda>item. status item = 200) [jsonItem 200, htmlItem 200, textItem 0]) = htmlItem 200 \<and>
   operation_responses (operationOf zeroStatusRoute) = [(''200'', renderResponse (textItem 0))] \<and>
   renderResponse (textItem 0) \<noteq> renderResponse (htmlItem 200)"
  by code_simp


end
